theory Spec2Isabelle
  imports Main "HOL-Library.Word"
begin

section \<open>Kernel data consumed by the unifier\<close>

text \<open>
  The unifier (\<^verbatim>\<open>src/library/unifier.cpp\<close>) works on the kernel's expressions, universe
  levels, justifications and substitutions. The kernel itself is not part of the
  sources at hand, so its data types and the small structural helpers the unifier calls
  are written down here from the specification's data model (section 3).
\<close>

text \<open>Modelled from the spec: hierarchical names, as produced by the name generator
  (a prefix extended by a string or by a number).\<close>

datatype name = Anonymous | Str name string | Num name nat

text \<open>Modelled from the spec: universe levels, "zero, successor, max, imax, parameter,
  meta".\<close>

datatype level =
    LZero
  | LSucc level
  | LMax level level
  | LIMax level level
  | LParam name
  | LMeta name

text \<open>Modelled from the spec: expressions, "bound variable (De Bruijn index), free local
  constant (name + type), metavariable (name + type), constant (global name + universe
  args), sort, lambda/pi binder, application, macro". Equality is structural; binder names,
  binder info and the printing name of a local constant are hints that the kernel's
  equality ignores, and they are left out, so that HOL's equality is the kernel's. A macro
  definition is an opaque identity.\<close>

datatype expr =
    Var nat
  | Sort level
  | Constant name "level list"
  | Meta name expr
  | Local name expr
  | App expr expr
  | Lambda expr expr
  | Pi expr expr
  | Macro nat "expr list"

text \<open>Modelled from the spec: justifications, "atomic (user-provided), assumption(k),
  composite(J1, J2)"; \<open>Nojust\<close> is the default-constructed (empty) justification.\<close>

datatype justification =
    Nojust
  | Asserted nat
  | Assumption "32 word"
  | Composite justification justification

text \<open>Modelled from the spec: "composite(J, {}) = J".\<close>

definition mk_composite1 :: "justification \<Rightarrow> justification \<Rightarrow> justification" where
  "mk_composite1 j1 j2 =
     (if j1 = Nojust then j2 else if j2 = Nojust then j1 else Composite j1 j2)"

text \<open>Modelled from the spec: "depends_on(J, k) returns true iff any leaf is
  assumption(k)".\<close>

fun depends_on :: "justification \<Rightarrow> 32 word \<Rightarrow> bool" where
  "depends_on Nojust k = False"
| "depends_on (Asserted a) k = False"
| "depends_on (Assumption i) k = (i = k)"
| "depends_on (Composite j1 j2) k = (depends_on j1 k \<or> depends_on j2 k)"

text \<open>Modelled from the spec: the substitution, a persistent mapping "from metavariable
  name (separately for term metas and universe metas) to (value, justification)".\<close>

record substitution =
  expr_subst :: "name \<rightharpoonup> expr \<times> justification"
  level_subst :: "name \<rightharpoonup> level \<times> justification"

definition empty_substitution :: substitution where
  "empty_substitution = \<lparr>expr_subst = Map.empty, level_subst = Map.empty\<rparr>"

definition subst_assign :: "substitution \<Rightarrow> name \<Rightarrow> expr \<Rightarrow> justification \<Rightarrow> substitution" where
  "subst_assign s m v j = s\<lparr>expr_subst := (expr_subst s)(m \<mapsto> (v, j))\<rparr>"

definition subst_assign_level :: "substitution \<Rightarrow> name \<Rightarrow> level \<Rightarrow> justification \<Rightarrow> substitution" where
  "subst_assign_level s m v j = s\<lparr>level_subst := (level_subst s)(m \<mapsto> (v, j))\<rparr>"

subsection \<open>Structural helpers on levels\<close>

text \<open>Modelled from the spec: the kernel's tests and accessors on levels. \<open>succ_of\<close> is
  only ever called under \<open>is_succ\<close>.\<close>

fun is_meta_level :: "level \<Rightarrow> bool" where
  "is_meta_level (LMeta n) = True"
| "is_meta_level l = False"

fun is_succ :: "level \<Rightarrow> bool" where
  "is_succ (LSucc l) = True"
| "is_succ l = False"

fun succ_of :: "level \<Rightarrow> level" where
  "succ_of (LSucc l) = l"
| "succ_of l = l"

fun meta_id :: "level \<Rightarrow> name" where
  "meta_id (LMeta n) = n"
| "meta_id l = Anonymous"

fun has_meta :: "level \<Rightarrow> bool" where
  "has_meta LZero = False"
| "has_meta (LSucc l) = has_meta l"
| "has_meta (LMax a b) = (has_meta a \<or> has_meta b)"
| "has_meta (LIMax a b) = (has_meta a \<or> has_meta b)"
| "has_meta (LParam n) = False"
| "has_meta (LMeta n) = True"

subsection \<open>Structural helpers on expressions\<close>

text \<open>Modelled from the spec: the kernel's tests and accessors on expressions, and the two
  precomputed bits "has-metavariable and has-local" of every node. As in the kernel, the
  bits of a metavariable or local constant take its type into account, and a universe
  metavariable in a sort or constant sets the has-metavariable bit.\<close>

fun is_metavar :: "expr \<Rightarrow> bool" where
  "is_metavar (Meta n t) = True"
| "is_metavar e = False"

fun is_local :: "expr \<Rightarrow> bool" where
  "is_local (Local n t) = True"
| "is_local e = False"

fun is_app :: "expr \<Rightarrow> bool" where
  "is_app (App f a) = True"
| "is_app e = False"

fun is_pi :: "expr \<Rightarrow> bool" where
  "is_pi (Pi d b) = True"
| "is_pi e = False"

fun is_binding :: "expr \<Rightarrow> bool" where
  "is_binding (Pi d b) = True"
| "is_binding (Lambda d b) = True"
| "is_binding e = False"

fun is_sort :: "expr \<Rightarrow> bool" where
  "is_sort (Sort l) = True"
| "is_sort e = False"

fun is_constant :: "expr \<Rightarrow> bool" where
  "is_constant (Constant n ls) = True"
| "is_constant e = False"

fun mlocal_name :: "expr \<Rightarrow> name" where
  "mlocal_name (Meta n t) = n"
| "mlocal_name (Local n t) = n"
| "mlocal_name e = Anonymous"

fun mlocal_type :: "expr \<Rightarrow> expr" where
  "mlocal_type (Meta n t) = t"
| "mlocal_type (Local n t) = t"
| "mlocal_type e = e"

fun binding_domain :: "expr \<Rightarrow> expr" where
  "binding_domain (Pi d b) = d"
| "binding_domain (Lambda d b) = d"
| "binding_domain e = e"

fun binding_body :: "expr \<Rightarrow> expr" where
  "binding_body (Pi d b) = b"
| "binding_body (Lambda d b) = b"
| "binding_body e = e"

fun get_app_fn :: "expr \<Rightarrow> expr" where
  "get_app_fn (App f a) = get_app_fn f"
| "get_app_fn e = e"

fun get_app_args :: "expr \<Rightarrow> expr list" where
  "get_app_args (App f a) = get_app_args f @ [a]"
| "get_app_args e = []"

definition mk_app :: "expr \<Rightarrow> expr list \<Rightarrow> expr" where
  "mk_app f args = foldl App f args"

definition is_meta :: "expr \<Rightarrow> bool" where
  "is_meta e = is_metavar (get_app_fn e)"

fun has_metavar :: "expr \<Rightarrow> bool" where
  "has_metavar (Var i) = False"
| "has_metavar (Sort l) = has_meta l"
| "has_metavar (Constant n ls) = list_ex has_meta ls"
| "has_metavar (Meta n t) = True"
| "has_metavar (Local n t) = has_metavar t"
| "has_metavar (App f a) = (has_metavar f \<or> has_metavar a)"
| "has_metavar (Lambda d b) = (has_metavar d \<or> has_metavar b)"
| "has_metavar (Pi d b) = (has_metavar d \<or> has_metavar b)"
| "has_metavar (Macro d as) = list_ex has_metavar as"

fun has_local :: "expr \<Rightarrow> bool" where
  "has_local (Var i) = False"
| "has_local (Sort l) = False"
| "has_local (Constant n ls) = False"
| "has_local (Meta n t) = has_local t"
| "has_local (Local n t) = True"
| "has_local (App f a) = (has_local f \<or> has_local a)"
| "has_local (Lambda d b) = (has_local d \<or> has_local b)"
| "has_local (Pi d b) = (has_local d \<or> has_local b)"
| "has_local (Macro d as) = list_ex has_local as"

text \<open>Modelled from the spec: \<open>abstract_locals e locals\<close> replaces the local constants of
  \<open>locals\<close> (found by name, the last entry first) by de Bruijn variables, the last local
  becoming variable 0, and counts the binders it passes.\<close>

fun abstract_local_var :: "nat \<Rightarrow> name \<Rightarrow> expr list \<Rightarrow> expr option" where
  "abstract_local_var offset n [] = None"
| "abstract_local_var offset n (l # ls) =
     (case abstract_local_var offset n ls of
        Some v \<Rightarrow> Some v
      | None \<Rightarrow> if mlocal_name l = n then Some (Var (offset + length ls)) else None)"

fun abstract_locals_at :: "nat \<Rightarrow> expr list \<Rightarrow> expr \<Rightarrow> expr" where
  "abstract_locals_at offset locals (Var i) = Var i"
| "abstract_locals_at offset locals (Sort l) = Sort l"
| "abstract_locals_at offset locals (Constant n ls) = Constant n ls"
| "abstract_locals_at offset locals (Meta n t) = Meta n (abstract_locals_at offset locals t)"
| "abstract_locals_at offset locals (Local n t) =
     (case abstract_local_var offset n locals of
        Some v \<Rightarrow> v
      | None \<Rightarrow> Local n (abstract_locals_at offset locals t))"
| "abstract_locals_at offset locals (App f a) =
     App (abstract_locals_at offset locals f) (abstract_locals_at offset locals a)"
| "abstract_locals_at offset locals (Lambda d b) =
     Lambda (abstract_locals_at offset locals d) (abstract_locals_at (Suc offset) locals b)"
| "abstract_locals_at offset locals (Pi d b) =
     Pi (abstract_locals_at offset locals d) (abstract_locals_at (Suc offset) locals b)"
| "abstract_locals_at offset locals (Macro d as) =
     Macro d (map (abstract_locals_at offset locals) as)"

definition abstract_locals :: "expr \<Rightarrow> expr list \<Rightarrow> expr" where
  "abstract_locals e locals = abstract_locals_at 0 locals e"

section \<open>The simple unifier\<close>

datatype unify_status = Solved | Failed | Unsupported

text \<open>\<^verbatim>\<open>is_simple_meta\<close> (lines 36-45): the head of \<open>e\<close> when \<open>e\<close> is a metavariable applied
  to distinct local constants. The loop refuses an argument that is not a local constant
  or that already stands among the arguments before it. The caller reads the arguments
  with \<open>get_app_args\<close>, which is the buffer the source fills.\<close>

fun distinct_locals :: "expr list \<Rightarrow> expr list \<Rightarrow> bool" where
  "distinct_locals seen [] = True"
| "distinct_locals seen (a # as) =
     (if \<not> is_local a \<or> a \<in> set seen then False else distinct_locals (seen @ [a]) as)"

definition is_simple_meta :: "expr \<Rightarrow> expr option" where
  "is_simple_meta e =
     (let m = get_app_fn e in
      if \<not> is_metavar m then None
      else if \<not> distinct_locals [] (get_app_args e) then None
      else Some m)"

text \<open>\<^verbatim>\<open>occurs_context_check\<close> (lines 49-70). The traversal \<^verbatim>\<open>for_each\<close> visits a node,
  and its children only when the visitor answers true; the children of a metavariable or
  local constant are its type. \<open>occurs_context_failed\<close> is the flag \<^verbatim>\<open>failed\<close> after the
  traversal.\<close>

fun occurs_context_failed :: "expr \<Rightarrow> expr list \<Rightarrow> expr \<Rightarrow> bool" where
  "occurs_context_failed m locals (Var i) = False"
| "occurs_context_failed m locals (Sort l) = False"
| "occurs_context_failed m locals (Constant n ls) = False"
| "occurs_context_failed m locals (Meta n t) =
     (Meta n t = m \<or> occurs_context_failed m locals t)"
| "occurs_context_failed m locals (Local n t) =
     (Local n t \<notin> set locals \<or> occurs_context_failed m locals t)"
| "occurs_context_failed m locals (App f a) =
     ((has_metavar (App f a) \<or> has_local (App f a)) \<and>
      (occurs_context_failed m locals f \<or> occurs_context_failed m locals a))"
| "occurs_context_failed m locals (Lambda d b) =
     ((has_metavar (Lambda d b) \<or> has_local (Lambda d b)) \<and>
      (occurs_context_failed m locals d \<or> occurs_context_failed m locals b))"
| "occurs_context_failed m locals (Pi d b) =
     ((has_metavar (Pi d b) \<or> has_local (Pi d b)) \<and>
      (occurs_context_failed m locals d \<or> occurs_context_failed m locals b))"
| "occurs_context_failed m locals (Macro d as) =
     ((has_metavar (Macro d as) \<or> has_local (Macro d as)) \<and>
      list_ex (occurs_context_failed m locals) as)"

definition occurs_context_check :: "expr \<Rightarrow> expr \<Rightarrow> expr list \<Rightarrow> bool" where
  "occurs_context_check e m locals = (\<not> occurs_context_failed m locals e)"

text \<open>\<^verbatim>\<open>lambda_abstract_locals\<close> (lines 73-81): abstract the locals, then wrap one lambda per
  local, the last local innermost, each with the local's type as its domain.\<close>

definition lambda_abstract_locals :: "expr \<Rightarrow> expr list \<Rightarrow> expr" where
  "lambda_abstract_locals e locals =
     foldr (\<lambda>l v. Lambda (mlocal_type l) v) locals (abstract_locals e locals)"

text \<open>\<^verbatim>\<open>unify_simple_core\<close> on expressions (lines 83-96).\<close>

definition unify_simple_core ::
  "substitution \<Rightarrow> expr \<Rightarrow> expr \<Rightarrow> justification \<Rightarrow> unify_status \<times> substitution" where
  "unify_simple_core s lhs rhs j =
     (let args = get_app_args lhs in
      case is_simple_meta lhs of
        None \<Rightarrow> (Unsupported, s)
      | Some m \<Rightarrow>
          if is_meta rhs \<and> get_app_fn rhs = m then (Unsupported, s)
          else if \<not> occurs_context_check rhs m args then (Failed, s)
          else (Solved, subst_assign s (mlocal_name m) (lambda_abstract_locals rhs args) j))"

text \<open>\<^verbatim>\<open>unify_simple\<close> on expressions (lines 98-109).\<close>

definition unify_simple ::
  "substitution \<Rightarrow> expr \<Rightarrow> expr \<Rightarrow> justification \<Rightarrow> unify_status \<times> substitution" where
  "unify_simple s lhs rhs j =
     (if lhs = rhs then (Solved, s)
      else if \<not> has_metavar lhs \<and> \<not> has_metavar rhs then (Failed, s)
      else if is_meta lhs then unify_simple_core s lhs rhs j
      else if is_meta rhs then unify_simple_core s rhs lhs j
      else (Unsupported, s))"

text \<open>\<^verbatim>\<open>occurs\<close> on levels (lines 112-125): the level traversal visits a node, and its
  children only when the node has a metavariable.\<close>

fun occurs :: "level \<Rightarrow> level \<Rightarrow> bool" where
  "occurs m LZero = (LZero = m)"
| "occurs m (LSucc l) = (LSucc l = m \<or> (has_meta (LSucc l) \<and> occurs m l))"
| "occurs m (LMax a b) = (LMax a b = m \<or> (has_meta (LMax a b) \<and> (occurs m a \<or> occurs m b)))"
| "occurs m (LIMax a b) = (LIMax a b = m \<or> (has_meta (LIMax a b) \<and> (occurs m a \<or> occurs m b)))"
| "occurs m (LParam n) = (LParam n = m)"
| "occurs m (LMeta n) = (LMeta n = m)"

text \<open>\<^verbatim>\<open>unify_simple_core\<close> on levels (lines 127-137).\<close>

definition unify_simple_core_level ::
  "substitution \<Rightarrow> level \<Rightarrow> level \<Rightarrow> justification \<Rightarrow> unify_status \<times> substitution" where
  "unify_simple_core_level s lhs rhs j =
     (let contains = occurs lhs rhs in
      if contains then (if is_succ rhs then (Failed, s) else (Unsupported, s))
      else (Solved, subst_assign_level s (meta_id lhs) rhs j))"

text \<open>\<^verbatim>\<open>unify_simple\<close> on levels (lines 139-152); the recursion strips one successor from
  both sides.\<close>

function unify_simple_level ::
  "substitution \<Rightarrow> level \<Rightarrow> level \<Rightarrow> justification \<Rightarrow> unify_status \<times> substitution" where
  "unify_simple_level s lhs rhs j =
     (if lhs = rhs then (Solved, s)
      else if \<not> has_meta lhs \<and> \<not> has_meta rhs then (Failed, s)
      else if is_meta_level lhs then unify_simple_core_level s lhs rhs j
      else if is_meta_level rhs then unify_simple_core_level s rhs lhs j
      else if is_succ lhs \<and> is_succ rhs then unify_simple_level s (succ_of lhs) (succ_of rhs) j
      else (Unsupported, s))"
  by pat_completeness auto
termination
proof (relation "measure (\<lambda>(s, lhs, rhs, j). size lhs)")
  show "wf (measure (\<lambda>(s, lhs, rhs, j). size lhs))" by simp
next
  fix s :: substitution and lhs rhs :: level and j :: justification
  assume "is_succ lhs \<and> is_succ rhs"
  then show "((s, succ_of lhs, succ_of rhs, j), (s, lhs, rhs, j))
      \<in> measure (\<lambda>(s, lhs, rhs, j). size lhs)"
    by (cases lhs) simp_all
qed

declare unify_simple_level.simps [simp del]

section \<open>The unifier's state\<close>

text \<open>Modelled from the spec: the name generator; \<^verbatim>\<open>next()\<close> returns the prefix extended by
  the counter, \<^verbatim>\<open>mk_child()\<close> a generator whose prefix is such a fresh name.\<close>

record name_generator =
  ng_prefix :: name
  ng_next_idx :: nat

definition ngen_next :: "name_generator \<Rightarrow> name \<times> name_generator" where
  "ngen_next g = (Num (ng_prefix g) (ng_next_idx g), g\<lparr>ng_next_idx := Suc (ng_next_idx g)\<rparr>)"

definition ngen_mk_child :: "name_generator \<Rightarrow> name_generator \<times> name_generator" where
  "ngen_mk_child g =
     (let (n, g') = ngen_next g in (\<lparr>ng_prefix = n, ng_next_idx = 0\<rparr>, g'))"

text \<open>Modelled from the spec: constraints, "Eq(lhs, rhs, j)", "LevelEq(lhs, rhs, j)" and
  "Choice(expr, fn, j, delayed)", where "fn is a generator producing alternatives for expr",
  each alternative a triple "(value, j, extra_constraints)". These are the three kinds the
  dispatch of \<^verbatim>\<open>process_constraint\<close> knows. Lazy lists of alternatives are lists.\<close>

datatype constraint =
    Eq_cnstr expr expr justification
  | Level_eq_cnstr level level justification
  | Choice_cnstr expr
      "expr \<Rightarrow> substitution \<Rightarrow> name_generator \<Rightarrow> (expr \<times> justification \<times> constraint list) list"
      justification bool

type_synonym a_choice = "expr \<times> justification \<times> constraint list"
type_synonym choice_fn = "expr \<Rightarrow> substitution \<Rightarrow> name_generator \<Rightarrow> a_choice list"
type_synonym unifier_plugin = "constraint \<Rightarrow> name_generator \<Rightarrow> constraint list list"

fun get_justification :: "constraint \<Rightarrow> justification" where
  "get_justification (Eq_cnstr l r j) = j"
| "get_justification (Level_eq_cnstr l r j) = j"
| "get_justification (Choice_cnstr e f j d) = j"

fun update_justification :: "constraint \<Rightarrow> justification \<Rightarrow> constraint" where
  "update_justification (Eq_cnstr l r j) j' = Eq_cnstr l r j'"
| "update_justification (Level_eq_cnstr l r j) j' = Level_eq_cnstr l r j'"
| "update_justification (Choice_cnstr e f j d) j' = Choice_cnstr e f j' d"

fun is_eq_cnstr :: "constraint \<Rightarrow> bool" where
  "is_eq_cnstr (Eq_cnstr l r j) = True"
| "is_eq_cnstr c = False"

fun is_choice_cnstr :: "constraint \<Rightarrow> bool" where
  "is_choice_cnstr (Choice_cnstr e f j d) = True"
| "is_choice_cnstr c = False"

text \<open>\<^verbatim>\<open>unify_simple\<close> on a constraint (lines 154-161).\<close>

fun unify_simple_cnstr :: "substitution \<Rightarrow> constraint \<Rightarrow> unify_status \<times> substitution" where
  "unify_simple_cnstr s (Eq_cnstr l r j) = unify_simple s l r j"
| "unify_simple_cnstr s (Level_eq_cnstr l r j) = unify_simple_level s l r j"
| "unify_simple_cnstr s (Choice_cnstr e f j d) = (Unsupported, s)"

text \<open>The band bases (lines 164-165), unsigned 32-bit.\<close>

definition g_first_delayed :: "32 word" where
  "g_first_delayed = push_bit 28 1"

definition g_first_very_delayed :: "32 word" where
  "g_first_very_delayed = push_bit 30 1"

text \<open>The constraint queue \<^verbatim>\<open>cnstr_set\<close> (lines 169-177) is a red-black tree of pairs
  (constraint, index) compared by the index alone. It is a list kept in ascending index
  order; inserting a pair whose index is present replaces the pair that was there, as the
  tree does. A set of constraint indices \<^verbatim>\<open>cnstr_idx_set\<close> is an ascending list.\<close>

type_synonym cnstr = "constraint \<times> 32 word"

fun cnstr_set_insert :: "cnstr \<Rightarrow> cnstr list \<Rightarrow> cnstr list" where
  "cnstr_set_insert x [] = [x]"
| "cnstr_set_insert x (y # ys) =
     (if snd x < snd y then x # y # ys
      else if snd x = snd y then x # ys
      else y # cnstr_set_insert x ys)"

definition cnstr_set_find :: "32 word \<Rightarrow> cnstr list \<Rightarrow> cnstr option" where
  "cnstr_set_find cidx cs = find (\<lambda>y. snd y = cidx) cs"

definition cnstr_set_erase :: "32 word \<Rightarrow> cnstr list \<Rightarrow> cnstr list" where
  "cnstr_set_erase cidx cs = filter (\<lambda>y. snd y \<noteq> cidx) cs"

text \<open>The three kinds of case split (lines 221-277): the saved state and what is left of
  the alternatives.\<close>

datatype case_split_alternatives =
    Plugin_case_split "constraint list list"
  | Choice_case_split expr justification "a_choice list"
  | Ho_case_split "constraint list list"

record case_split =
  cs_assumption_idx :: "32 word"
  cs_failed_justifications :: justification
  cs_subst :: substitution
  cs_cnstrs :: "cnstr list"
  cs_mvar_occs :: "name \<rightharpoonup> 32 word list"
  cs_mlvl_occs :: "name \<rightharpoonup> 32 word list"
  cs_tail :: case_split_alternatives

text \<open>The fields of \<^verbatim>\<open>unifier_fn\<close> (lines 180-212, 279-280). The environment is part of
  the kernel interface below; the type checker's state is of an abstract type \<open>'tc\<close>. The
  case-split stack has its top first.\<close>

record 'tc unifier_fn =
  m_ngen :: name_generator
  m_subst :: substitution
  m_plugin :: unifier_plugin
  m_tc :: 'tc
  m_use_exception :: bool
  m_max_steps :: "32 word"
  m_num_steps :: "32 word"
  m_first :: bool
  m_next_assumption_idx :: "32 word"
  m_next_cidx :: "32 word"
  m_cnstrs :: "cnstr list"
  m_mvar_occs :: "name \<rightharpoonup> 32 word list"
  m_mlvl_occs :: "name \<rightharpoonup> 32 word list"
  m_case_splits :: "case_split list"
  m_conflict :: "justification option"

text \<open>What a call can end in: a value, an exception, or no answer within the fuel granted
  to the recursion. \<open>Assertion_violation\<close> stands for the places where the source asserts
  a fact and then relies on it (reading the conflict when there is none, taking the
  minimum of an empty queue).\<close>

datatype kernel_exception = Kernel_exception nat

datatype exception =
    Max_steps_exceeded "32 word"
  | Unifier_exception justification
  | Kernel_error kernel_exception
  | Assertion_violation

datatype 'a res = Out_of_fuel | Throw exception | Return 'a

fun bind_res :: "'a res \<Rightarrow> ('a \<Rightarrow> 'b res) \<Rightarrow> 'b res" where
  "bind_res Out_of_fuel f = Out_of_fuel"
| "bind_res (Throw e) f = Throw e"
| "bind_res (Return a) f = f a"

text \<open>Modelled from the spec: the kernel interface the unifier consumes (section 6):
  \<^verbatim>\<open>infer\<close>, \<^verbatim>\<open>whnf\<close> and \<^verbatim>\<open>is_def_eq\<close> of the type checker, each of which may raise a
  kernel error or answer together with the constraints it emitted through the callback
  and its new state; \<^verbatim>\<open>push\<close> and \<^verbatim>\<open>pop\<close>; the construction of a type checker from a name
  generator; the substitution's \<^verbatim>\<open>instantiate_metavars\<close> on expressions (the value, the
  justification, the universe and the expression metavariables left) and on levels;
  \<^verbatim>\<open>normalize\<close> on levels; and \<^verbatim>\<open>instantiate\<close> of a binder's body.\<close>

record 'tc kernel =
  tc_infer :: "'tc \<Rightarrow> expr \<Rightarrow> kernel_exception + expr \<times> constraint list \<times> 'tc"
  tc_whnf :: "'tc \<Rightarrow> expr \<Rightarrow> kernel_exception + expr \<times> constraint list \<times> 'tc"
  tc_is_def_eq ::
    "'tc \<Rightarrow> expr \<Rightarrow> expr \<Rightarrow> justification \<Rightarrow> kernel_exception + bool \<times> constraint list \<times> 'tc"
  tc_push :: "'tc \<Rightarrow> 'tc"
  tc_pop :: "'tc \<Rightarrow> 'tc"
  mk_type_checker :: "name_generator \<Rightarrow> 'tc"
  instantiate_metavars :: "substitution \<Rightarrow> expr \<Rightarrow> expr \<times> justification \<times> name list \<times> name list"
  instantiate_metavars_level :: "substitution \<Rightarrow> level \<Rightarrow> level \<times> justification \<times> name list"
  normalize :: "level \<Rightarrow> level"
  instantiate :: "expr \<Rightarrow> expr \<Rightarrow> expr"

type_synonym 'tc process = "constraint \<Rightarrow> 'tc unifier_fn \<Rightarrow> (bool \<times> 'tc unifier_fn) res"

section \<open>The engine: steps, conflicts and the queue\<close>

text \<open>\<^verbatim>\<open>check_system\<close> (lines 296-303): the test comes before the increment. The poll of
  the external interrupt flag is not part of the model.\<close>

definition check_system :: "'tc unifier_fn \<Rightarrow> 'tc unifier_fn res" where
  "check_system u =
     (if m_num_steps u > m_max_steps u then Throw (Max_steps_exceeded (m_max_steps u))
      else Return (u\<lparr>m_num_steps := m_num_steps u + 1\<rparr>))"

definition in_conflict :: "'tc unifier_fn \<Rightarrow> bool" where
  "in_conflict u = (m_conflict u \<noteq> None)"

definition set_conflict :: "justification \<Rightarrow> 'tc unifier_fn \<Rightarrow> 'tc unifier_fn" where
  "set_conflict j u = u\<lparr>m_conflict := Some j\<rparr>"

definition update_conflict :: "justification \<Rightarrow> 'tc unifier_fn \<Rightarrow> 'tc unifier_fn" where
  "update_conflict j u = u\<lparr>m_conflict := Some j\<rparr>"

definition reset_conflict :: "'tc unifier_fn \<Rightarrow> 'tc unifier_fn" where
  "reset_conflict u = u\<lparr>m_conflict := None\<rparr>"

text \<open>\<^verbatim>\<open>add_occ\<close>, \<^verbatim>\<open>add_occs\<close> (lines 389-424). A null pointer for a set of names is
  \<open>None\<close>.\<close>

definition add_occ :: "(name \<rightharpoonup> 32 word list) \<Rightarrow> name \<Rightarrow> 32 word \<Rightarrow> (name \<rightharpoonup> 32 word list)" where
  "add_occ occs m cidx =
     (let s = (case occs m of Some s' \<Rightarrow> s' | None \<Rightarrow> []) in
      if cidx \<in> set s then occs else occs(m \<mapsto> insort cidx s))"

definition add_mvar_occ :: "name \<Rightarrow> 32 word \<Rightarrow> 'tc unifier_fn \<Rightarrow> 'tc unifier_fn" where
  "add_mvar_occ m cidx u = u\<lparr>m_mvar_occs := add_occ (m_mvar_occs u) m cidx\<rparr>"

definition add_mlvl_occ :: "name \<Rightarrow> 32 word \<Rightarrow> 'tc unifier_fn \<Rightarrow> 'tc unifier_fn" where
  "add_mlvl_occ m cidx u = u\<lparr>m_mlvl_occs := add_occ (m_mlvl_occs u) m cidx\<rparr>"

definition add_occs ::
  "32 word \<Rightarrow> name list option \<Rightarrow> name list option \<Rightarrow> 'tc unifier_fn \<Rightarrow> 'tc unifier_fn" where
  "add_occs cidx mlvl_occs mvar_occs u =
     (let u1 = (case mlvl_occs of None \<Rightarrow> u | Some ms \<Rightarrow> fold (\<lambda>m. add_mlvl_occ m cidx) ms u) in
      case mvar_occs of None \<Rightarrow> u1 | Some ms \<Rightarrow> fold (\<lambda>m. add_mvar_occ m cidx) ms u1)"

text \<open>\<^verbatim>\<open>add_cnstr\<close>, \<^verbatim>\<open>add_delayed_cnstr\<close>, \<^verbatim>\<open>add_very_delayed_cnstr\<close> (lines 427-448). The
  index is the unsigned sum of the counter and the band base.\<close>

definition add_cnstr ::
  "constraint \<Rightarrow> name list option \<Rightarrow> name list option \<Rightarrow> 32 word \<Rightarrow> 'tc unifier_fn \<Rightarrow> 'tc unifier_fn" where
  "add_cnstr c mlvl_occs mvar_occs start_cidx u =
     (let cidx = m_next_cidx u + start_cidx;
          u1 = u\<lparr>m_cnstrs := cnstr_set_insert (c, cidx) (m_cnstrs u)\<rparr>;
          u2 = add_occs cidx mlvl_occs mvar_occs u1
      in u2\<lparr>m_next_cidx := m_next_cidx u2 + 1\<rparr>)"

definition add_delayed_cnstr ::
  "constraint \<Rightarrow> name list option \<Rightarrow> name list option \<Rightarrow> 'tc unifier_fn \<Rightarrow> 'tc unifier_fn" where
  "add_delayed_cnstr c mlvl_occs mvar_occs u = add_cnstr c mlvl_occs mvar_occs g_first_delayed u"

definition add_very_delayed_cnstr ::
  "constraint \<Rightarrow> name list option \<Rightarrow> name list option \<Rightarrow> 'tc unifier_fn \<Rightarrow> 'tc unifier_fn" where
  "add_very_delayed_cnstr c mlvl_occs mvar_occs u =
     add_cnstr c mlvl_occs mvar_occs g_first_very_delayed u"

section \<open>The engine: easy constraints\<close>

text \<open>\<^verbatim>\<open>replace_range\<close>, \<^verbatim>\<open>get_arity\<close>, \<^verbatim>\<open>mk_app_vars\<close>, \<^verbatim>\<open>mk_lambda_for\<close> (lines 311-337,
  375-381).\<close>

fun replace_range :: "expr \<Rightarrow> expr \<Rightarrow> expr" where
  "replace_range (Pi d b) new_range = Pi d (replace_range b new_range)"
| "replace_range t new_range = new_range"

fun get_arity :: "expr \<Rightarrow> nat" where
  "get_arity (Pi d b) = Suc (get_arity b)"
| "get_arity t = 0"

fun mk_app_vars :: "expr \<Rightarrow> nat \<Rightarrow> expr" where
  "mk_app_vars f 0 = f"
| "mk_app_vars f (Suc i) = mk_app_vars (App f (Var i)) i"

fun mk_lambda_for :: "expr \<Rightarrow> expr \<Rightarrow> expr" where
  "mk_lambda_for (Pi d b) v = Lambda d (mk_lambda_for b v)"
| "mk_lambda_for t v = v"

text \<open>\<^verbatim>\<open>mk_aux_type_metavar_for\<close>, \<^verbatim>\<open>mk_aux_metavar_for\<close> (lines 346-367): the first fresh
  name is the universe metavariable's, the next the metavariable's.\<close>

definition mk_aux_type_metavar_for :: "expr \<Rightarrow> 'tc unifier_fn \<Rightarrow> expr \<times> 'tc unifier_fn" where
  "mk_aux_type_metavar_for t u =
     (let (un, g1) = ngen_next (m_ngen u);
          new_type = replace_range t (Sort (LMeta un));
          (n, g2) = ngen_next g1
      in (Meta n new_type, u\<lparr>m_ngen := g2\<rparr>))"

definition mk_aux_metavar_for :: "expr \<Rightarrow> 'tc unifier_fn \<Rightarrow> expr \<times> 'tc unifier_fn" where
  "mk_aux_metavar_for t u =
     (let num = get_arity t;
          (tm, u1) = mk_aux_type_metavar_for t u;
          r = mk_app_vars tm num;
          new_type = replace_range t r;
          (n, g) = ngen_next (m_ngen u1)
      in (Meta n new_type, u1\<lparr>m_ngen := g\<rparr>))"

text \<open>A call into the type checker. The type checker was built with the callback
  \<^verbatim>\<open>[=](constraint const & c) { process_constraint(c); }\<close> (line 286): every constraint it
  emits is dispatched, the answer of the dispatch dropped, before the call returns. The
  parameter \<open>pc\<close> of the functions below is that callback, \<^verbatim>\<open>process_constraint\<close> itself.\<close>

fun callbacks :: "'tc process \<Rightarrow> constraint list \<Rightarrow> 'tc unifier_fn \<Rightarrow> 'tc unifier_fn res" where
  "callbacks pc [] u = Return u"
| "callbacks pc (c # cs) u = bind_res (pc c u) (\<lambda>(ok, u'). callbacks pc cs u')"

definition tc_call ::
  "'tc process \<Rightarrow> kernel_exception + 'a \<times> constraint list \<times> 'tc \<Rightarrow> 'tc unifier_fn \<Rightarrow>
   ('a \<times> 'tc unifier_fn) res" where
  "tc_call pc r u =
     (case r of
        Inl e \<Rightarrow> Throw (Kernel_error e)
      | Inr (a, emitted, tc') \<Rightarrow>
          bind_res (callbacks pc emitted (u\<lparr>m_tc := tc'\<rparr>)) (\<lambda>u'. Return (a, u')))"

text \<open>\<^verbatim>\<open>process_constraint_cidx\<close> (lines 671-681) and the loop \<^verbatim>\<open>s.for_each\<close> over a set of
  indices, in ascending order.\<close>

definition process_constraint_cidx ::
  "'tc process \<Rightarrow> 32 word \<Rightarrow> 'tc unifier_fn \<Rightarrow> (bool \<times> 'tc unifier_fn) res" where
  "process_constraint_cidx pc cidx u =
     (if in_conflict u then Return (False, u)
      else case cnstr_set_find cidx (m_cnstrs u) of
             Some it \<Rightarrow> pc (fst it) (u\<lparr>m_cnstrs := cnstr_set_erase cidx (m_cnstrs u)\<rparr>)
           | None \<Rightarrow> Return (True, u))"

fun process_cidxs :: "'tc process \<Rightarrow> 32 word list \<Rightarrow> 'tc unifier_fn \<Rightarrow> 'tc unifier_fn res" where
  "process_cidxs pc [] u = Return u"
| "process_cidxs pc (cidx # s) u =
     bind_res (process_constraint_cidx pc cidx u) (\<lambda>(ok, u'). process_cidxs pc s u')"

text \<open>\<^verbatim>\<open>assign\<close> on expressions (lines 455-473).\<close>

definition assign ::
  "'tc kernel \<Rightarrow> 'tc process \<Rightarrow> expr \<Rightarrow> expr \<Rightarrow> justification \<Rightarrow> 'tc unifier_fn \<Rightarrow>
   (bool \<times> 'tc unifier_fn) res" where
  "assign K pc m v j u =
     (let u1 = u\<lparr>m_subst := subst_assign (m_subst u) (mlocal_name m) v j\<rparr>;
          m_type = mlocal_type m
      in bind_res (tc_call pc (tc_infer K (m_tc u1) v) u1) (\<lambda>(v_type, u2).
           if in_conflict u2 then Return (False, u2)
           else bind_res (tc_call pc (tc_is_def_eq K (m_tc u2) m_type v_type j) u2) (\<lambda>(eq, u3).
             if \<not> eq then Return (False, u3)
             else case m_mvar_occs u3 (mlocal_name m) of
                    Some s \<Rightarrow>
                      bind_res
                        (process_cidxs pc s (u3\<lparr>m_mvar_occs := (m_mvar_occs u3)(mlocal_name m := None)\<rparr>))
                        (\<lambda>u4. Return (\<not> in_conflict u4, u4))
                  | None \<Rightarrow> Return (True, u3))))"

text \<open>\<^verbatim>\<open>assign\<close> on universe levels (lines 479-493).\<close>

definition assign_level ::
  "'tc process \<Rightarrow> level \<Rightarrow> level \<Rightarrow> justification \<Rightarrow> 'tc unifier_fn \<Rightarrow>
   (bool \<times> 'tc unifier_fn) res" where
  "assign_level pc m v j u =
     (let u1 = u\<lparr>m_subst := subst_assign_level (m_subst u) (meta_id m) v j\<rparr> in
      case m_mlvl_occs u1 (meta_id m) of
        Some s \<Rightarrow>
          bind_res (process_cidxs pc s (u1\<lparr>m_mlvl_occs := (m_mlvl_occs u1)(meta_id m := None)\<rparr>))
            (\<lambda>u2. Return (\<not> in_conflict u2, u2))
      | None \<Rightarrow> Return (True, u1))"

datatype status = Assigned | Failed_status | Continue

text \<open>\<^verbatim>\<open>process_metavar_eq\<close> on expressions (lines 502-519).\<close>

definition process_metavar_eq ::
  "'tc kernel \<Rightarrow> 'tc process \<Rightarrow> expr \<Rightarrow> expr \<Rightarrow> justification \<Rightarrow> 'tc unifier_fn \<Rightarrow>
   (status \<times> 'tc unifier_fn) res" where
  "process_metavar_eq K pc lhs rhs j u =
     (if \<not> is_meta lhs then Return (Continue, u)
      else
        let locals = get_app_args lhs in
        case is_simple_meta lhs of
          None \<Rightarrow> Return (Continue, u)
        | Some m \<Rightarrow>
            if is_meta rhs \<and> get_app_fn rhs = m then Return (Continue, u)
            else if \<not> occurs_context_check rhs m locals then Return (Failed_status, set_conflict j u)
            else bind_res (assign K pc m (lambda_abstract_locals rhs locals) j u) (\<lambda>(ok, u').
                   if ok then Return (Assigned, u') else Return (Failed_status, u')))"

text \<open>\<^verbatim>\<open>process_eq_constraint\<close> (lines 522-573). The two instantiations add to the same
  two sets of names; the right-hand side is reduced first.\<close>

definition process_eq_constraint ::
  "'tc kernel \<Rightarrow> 'tc process \<Rightarrow> constraint \<Rightarrow> 'tc unifier_fn \<Rightarrow> (bool \<times> 'tc unifier_fn) res" where
  "process_eq_constraint K pc c u =
     (case c of
        Eq_cnstr c_lhs c_rhs c_jst \<Rightarrow>
          (let (lhs, lhs_jst, lvls1, exprs1) = instantiate_metavars K (m_subst u) c_lhs;
               (rhs, rhs_jst, lvls2, exprs2) = instantiate_metavars K (m_subst u) c_rhs;
               unassigned_lvls = lvls1 @ lvls2;
               unassigned_exprs = exprs1 @ exprs2
           in if lhs = rhs then Return (True, u)
              else
                let new_jst = mk_composite1 (mk_composite1 c_jst lhs_jst) rhs_jst in
                if \<not> has_metavar lhs \<and> \<not> has_metavar rhs then Return (False, set_conflict new_jst u)
                else bind_res (process_metavar_eq K pc lhs rhs new_jst u) (\<lambda>(st, u1).
                  if st \<noteq> Continue then Return (st = Assigned, u1)
                  else bind_res (process_metavar_eq K pc rhs lhs new_jst u1) (\<lambda>(st, u2).
                    if st \<noteq> Continue then Return (st = Assigned, u2)
                    else bind_res (tc_call pc (tc_whnf K (m_tc u2) rhs) u2) (\<lambda>(rhs', u3).
                         bind_res (tc_call pc (tc_whnf K (m_tc u3) lhs) u3) (\<lambda>(lhs', u4).
                      if lhs' \<noteq> c_lhs \<or> rhs' \<noteq> c_rhs then
                        bind_res (tc_call pc (tc_is_def_eq K (m_tc u4) lhs' rhs' new_jst) u4) (\<lambda>(eq, u5).
                          if eq then Return (True, u5)
                          else Return (False, set_conflict new_jst u5))
                      else if is_meta lhs' \<and> is_meta rhs' then
                        Return (True, add_very_delayed_cnstr c (Some unassigned_lvls) (Some unassigned_exprs) u4)
                      else if is_meta lhs' \<or> is_meta rhs' then
                        Return (True, add_delayed_cnstr c (Some unassigned_lvls) (Some unassigned_exprs) u4)
                      else
                        Return (True, add_cnstr c (Some unassigned_lvls) (Some unassigned_exprs) 0 u4))))))
      | _ \<Rightarrow> Throw Assertion_violation)"

text \<open>\<^verbatim>\<open>process_metavar_eq\<close> on universe levels (lines 581-597).\<close>

definition process_metavar_eq_level ::
  "'tc process \<Rightarrow> level \<Rightarrow> level \<Rightarrow> justification \<Rightarrow> 'tc unifier_fn \<Rightarrow>
   (status \<times> 'tc unifier_fn) res" where
  "process_metavar_eq_level pc lhs rhs j u =
     (if \<not> is_meta_level lhs then Return (Continue, u)
      else
        let contains = occurs lhs rhs in
        if contains then (if is_succ rhs then Return (Failed_status, u) else Return (Continue, u))
        else bind_res (assign_level pc lhs rhs j u) (\<lambda>(ok, u').
               if ok then Return (Assigned, u') else Return (Failed_status, u')))"

text \<open>\<^verbatim>\<open>process_level_eq_constraint\<close> (lines 600-640); \<open>strip_succs\<close> is its loop that
  eliminates the outermost successors.\<close>

fun strip_succs :: "level \<Rightarrow> level \<Rightarrow> level \<times> level" where
  "strip_succs (LSucc a) (LSucc b) = strip_succs a b"
| "strip_succs a b = (a, b)"

definition process_level_eq_constraint ::
  "'tc kernel \<Rightarrow> 'tc process \<Rightarrow> constraint \<Rightarrow> 'tc unifier_fn \<Rightarrow> (bool \<times> 'tc unifier_fn) res" where
  "process_level_eq_constraint K pc c u =
     (case c of
        Level_eq_cnstr c_lhs c_rhs c_jst \<Rightarrow>
          (let (lhs0, lhs_jst, lvls1) = instantiate_metavars_level K (m_subst u) c_lhs;
               (rhs0, rhs_jst, lvls2) = instantiate_metavars_level K (m_subst u) c_rhs;
               unassigned_lvls = lvls1 @ lvls2;
               (lhs, rhs) = strip_succs (normalize K lhs0) (normalize K rhs0)
           in if lhs = rhs then Return (True, u)
              else
                let new_jst = mk_composite1 (mk_composite1 c_jst lhs_jst) rhs_jst in
                if \<not> has_meta lhs \<and> \<not> has_meta rhs then Return (False, set_conflict new_jst u)
                else bind_res (process_metavar_eq_level pc lhs rhs new_jst u) (\<lambda>(st, u1).
                  if st \<noteq> Continue then Return (st = Assigned, u1)
                  else bind_res (process_metavar_eq_level pc rhs lhs new_jst u1) (\<lambda>(st, u2).
                    if st \<noteq> Continue then Return (st = Assigned, u2)
                    else if lhs \<noteq> c_lhs \<or> rhs \<noteq> c_rhs then
                      Return (True, add_delayed_cnstr (Level_eq_cnstr lhs rhs new_jst)
                                      (Some unassigned_lvls) None u2)
                    else Return (True, add_delayed_cnstr c (Some unassigned_lvls) None u2))))
      | _ \<Rightarrow> Throw Assertion_violation)"

text \<open>\<^verbatim>\<open>process_constraint\<close> (lines 647-665). \<open>process_constraint_step\<close> is its body and
  \<open>dispatch_constraint\<close> the \<^verbatim>\<open>switch\<close> in it, with
  the calls that come back to \<^verbatim>\<open>process_constraint\<close> (from the type checker's callback and
  from the constraints woken up by an assignment) going to \<open>pc\<close>; \<open>process_constraint\<close>
  closes the recursion, the fuel bounding how deep the dispatches nest.\<close>

definition dispatch_constraint ::
  "'tc kernel \<Rightarrow> 'tc process \<Rightarrow> constraint \<Rightarrow> 'tc unifier_fn \<Rightarrow> (bool \<times> 'tc unifier_fn) res" where
  "dispatch_constraint K pc c u =
     (case c of
        Choice_cnstr e f j delayed \<Rightarrow>
          if delayed then Return (True, add_very_delayed_cnstr c None None u)
          else Return (True, add_cnstr c None None 0 u)
      | Eq_cnstr l r j \<Rightarrow> process_eq_constraint K pc c u
      | Level_eq_cnstr l r j \<Rightarrow> process_level_eq_constraint K pc c u)"

definition process_constraint_step ::
  "'tc kernel \<Rightarrow> 'tc process \<Rightarrow> constraint \<Rightarrow> 'tc unifier_fn \<Rightarrow> (bool \<times> 'tc unifier_fn) res" where
  "process_constraint_step K pc c u =
     (if in_conflict u then Return (False, u)
      else bind_res (check_system u) (dispatch_constraint K pc c))"

primrec process_constraint ::
  "'tc kernel \<Rightarrow> nat \<Rightarrow> constraint \<Rightarrow> 'tc unifier_fn \<Rightarrow> (bool \<times> 'tc unifier_fn) res" where
  "process_constraint K 0 = (\<lambda>c u. Out_of_fuel)"
| "process_constraint K (Suc fuel) = process_constraint_step K (process_constraint K fuel)"

section \<open>The engine: case splits and the solution stream\<close>

text \<open>\<^verbatim>\<open>process_constraints\<close> (lines 713-717) and \<^verbatim>\<open>process_choice_result\<close> (lines
  719-724).\<close>

fun process_constraints_loop ::
  "'tc process \<Rightarrow> constraint list \<Rightarrow> justification \<Rightarrow> 'tc unifier_fn \<Rightarrow> 'tc unifier_fn res" where
  "process_constraints_loop pc [] j u = Return u"
| "process_constraints_loop pc (c # cs) j u =
     bind_res (pc (update_justification c (mk_composite1 (get_justification c) j)) u)
       (\<lambda>(ok, u'). process_constraints_loop pc cs j u')"

definition process_constraints ::
  "'tc process \<Rightarrow> constraint list \<Rightarrow> justification \<Rightarrow> 'tc unifier_fn \<Rightarrow>
   (bool \<times> 'tc unifier_fn) res" where
  "process_constraints pc cs j u =
     bind_res (process_constraints_loop pc cs j u) (\<lambda>u'. Return (\<not> in_conflict u', u'))"

definition process_choice_result ::
  "'tc process \<Rightarrow> expr \<Rightarrow> a_choice \<Rightarrow> justification \<Rightarrow> 'tc unifier_fn \<Rightarrow>
   (bool \<times> 'tc unifier_fn) res" where
  "process_choice_result pc m r j u =
     (case r of (v, rj, rcs) \<Rightarrow>
        let j' = mk_composite1 j rj in
        bind_res (pc (Eq_cnstr m v j') u) (\<lambda>(ok, u1).
          if ok then process_constraints pc rcs j' u1 else Return (False, u1)))"

text \<open>The constructor of \<^verbatim>\<open>case_split\<close> (lines 231-236) saves the state, takes the next
  assumption index and pushes a savepoint of the type checker; \<^verbatim>\<open>restore_state\<close> (lines
  239-251) reads the conflict.\<close>

definition new_case_split ::
  "'tc kernel \<Rightarrow> case_split_alternatives \<Rightarrow> 'tc unifier_fn \<Rightarrow> case_split \<times> 'tc unifier_fn" where
  "new_case_split K alts u =
     (\<lparr>cs_assumption_idx = m_next_assumption_idx u,
       cs_failed_justifications = Nojust,
       cs_subst = m_subst u,
       cs_cnstrs = m_cnstrs u,
       cs_mvar_occs = m_mvar_occs u,
       cs_mlvl_occs = m_mlvl_occs u,
       cs_tail = alts\<rparr>,
      u\<lparr>m_next_assumption_idx := m_next_assumption_idx u + 1, m_tc := tc_push K (m_tc u)\<rparr>)"

definition add_case_split :: "case_split \<Rightarrow> 'tc unifier_fn \<Rightarrow> 'tc unifier_fn" where
  "add_case_split d u = u\<lparr>m_case_splits := d # m_case_splits u\<rparr>"

definition restore_state ::
  "'tc kernel \<Rightarrow> case_split \<Rightarrow> 'tc unifier_fn \<Rightarrow> (case_split \<times> 'tc unifier_fn) res" where
  "restore_state K d u =
     (case m_conflict u of
        None \<Rightarrow> Throw Assertion_violation
      | Some cj \<Rightarrow>
          Return
            (d\<lparr>cs_assumption_idx := m_next_assumption_idx u,
               cs_failed_justifications := mk_composite1 (cs_failed_justifications d) cj\<rparr>,
             u\<lparr>m_tc := tc_push K (tc_pop K (m_tc u)),
               m_subst := cs_subst d,
               m_cnstrs := cs_cnstrs d,
               m_mvar_occs := cs_mvar_occs d,
               m_mlvl_occs := cs_mlvl_occs d,
               m_next_assumption_idx := m_next_assumption_idx u + 1,
               m_conflict := None\<rparr>))"

text \<open>What the three \<^verbatim>\<open>next\<close> methods do when the alternatives are used up: the conflict is
  extended by the justifications of the failed branches.\<close>

definition exhausted_case_split ::
  "case_split \<Rightarrow> 'tc unifier_fn \<Rightarrow> (bool \<times> case_split \<times> 'tc unifier_fn) res" where
  "exhausted_case_split d u =
     (case m_conflict u of
        None \<Rightarrow> Throw Assertion_violation
      | Some cj \<Rightarrow>
          Return (False, d, update_conflict (mk_composite1 cj (cs_failed_justifications d)) u))"

text \<open>\<^verbatim>\<open>next_choice_case_split\<close> (726-739), \<^verbatim>\<open>next_plugin_case_split\<close> (759-771),
  \<^verbatim>\<open>next_ho_case_split\<close> (788-800), reached through the virtual \<^verbatim>\<open>next\<close> of a case split.
  The case split is changed in place by the source; here it is returned.\<close>

definition case_split_next ::
  "'tc kernel \<Rightarrow> 'tc process \<Rightarrow> case_split \<Rightarrow> 'tc unifier_fn \<Rightarrow>
   (bool \<times> case_split \<times> 'tc unifier_fn) res" where
  "case_split_next K pc d u =
     (case cs_tail d of
        Choice_case_split e jst alts \<Rightarrow>
          (case alts of
             r # rest \<Rightarrow>
               bind_res (restore_state K d u) (\<lambda>(d1, u1).
                 let d2 = d1\<lparr>cs_tail := Choice_case_split e jst rest\<rparr>;
                     a = Assumption (cs_assumption_idx d2)
                 in bind_res (process_choice_result pc e r (mk_composite1 jst a) u1)
                      (\<lambda>(ok, u2). Return (ok, d2, u2)))
           | [] \<Rightarrow> exhausted_case_split d u)
      | Plugin_case_split alts \<Rightarrow>
          (case alts of
             r # rest \<Rightarrow>
               bind_res (restore_state K d u) (\<lambda>(d1, u1).
                 let d2 = d1\<lparr>cs_tail := Plugin_case_split rest\<rparr> in
                 bind_res (process_constraints pc r (Assumption (cs_assumption_idx d2)) u1)
                   (\<lambda>(ok, u2). Return (ok, d2, u2)))
           | [] \<Rightarrow> exhausted_case_split d u)
      | Ho_case_split alts \<Rightarrow>
          (case alts of
             c # rest \<Rightarrow>
               bind_res (restore_state K d u) (\<lambda>(d1, u1).
                 let d2 = d1\<lparr>cs_tail := Ho_case_split rest\<rparr> in
                 bind_res (process_constraints pc c (Assumption (cs_assumption_idx d2)) u1)
                   (\<lambda>(ok, u2). Return (ok, d2, u2)))
           | [] \<Rightarrow> exhausted_case_split d u))"

text \<open>\<^verbatim>\<open>resolve_conflict\<close> (lines 687-702). The loop walks down the stack; the case split on
  top is the one \<^verbatim>\<open>next\<close> changes.\<close>

fun resolve_conflict_loop ::
  "'tc kernel \<Rightarrow> 'tc process \<Rightarrow> case_split list \<Rightarrow> 'tc unifier_fn \<Rightarrow> (bool \<times> 'tc unifier_fn) res" where
  "resolve_conflict_loop K pc [] u = Return (False, u\<lparr>m_case_splits := []\<rparr>)"
| "resolve_conflict_loop K pc (d # ds) u =
     (case m_conflict u of
        None \<Rightarrow> Throw Assertion_violation
      | Some cj \<Rightarrow>
          if depends_on cj (cs_assumption_idx d) then
            let d1 = d\<lparr>cs_failed_justifications := mk_composite1 (cs_failed_justifications d) cj\<rparr> in
            bind_res (case_split_next K pc d1 (u\<lparr>m_case_splits := d1 # ds\<rparr>)) (\<lambda>(ok, d2, u1).
              if ok then Return (True, reset_conflict (u1\<lparr>m_case_splits := d2 # ds\<rparr>))
              else resolve_conflict_loop K pc ds (u1\<lparr>m_tc := tc_pop K (m_tc u1), m_case_splits := ds\<rparr>))
          else resolve_conflict_loop K pc ds (u\<lparr>m_tc := tc_pop K (m_tc u), m_case_splits := ds\<rparr>))"

definition resolve_conflict ::
  "'tc kernel \<Rightarrow> 'tc process \<Rightarrow> 'tc unifier_fn \<Rightarrow> (bool \<times> 'tc unifier_fn) res" where
  "resolve_conflict K pc u = resolve_conflict_loop K pc (m_case_splits u) u"

text \<open>\<^verbatim>\<open>failure\<close> (lines 704-710).\<close>

definition failure :: "'tc unifier_fn \<Rightarrow> (substitution option \<times> 'tc unifier_fn) res" where
  "failure u =
     (if m_use_exception u then
        (case m_conflict u of
           Some cj \<Rightarrow> Throw (Unifier_exception cj)
         | None \<Rightarrow> Throw Assertion_violation)
      else Return (None, u))"

text \<open>\<^verbatim>\<open>process_choice_constraint\<close> (lines 741-757) and \<^verbatim>\<open>process_plugin_constraint\<close> (lines
  773-786).\<close>

definition process_choice_constraint ::
  "'tc kernel \<Rightarrow> 'tc process \<Rightarrow> constraint \<Rightarrow> 'tc unifier_fn \<Rightarrow> (bool \<times> 'tc unifier_fn) res" where
  "process_choice_constraint K pc c u =
     (case c of
        Choice_cnstr m fn c_jst delayed \<Rightarrow>
          bind_res (tc_call pc (tc_infer K (m_tc u) m) u) (\<lambda>(m_type0, u1).
            let (m_type, m_type_jst, lvls, exprs) = instantiate_metavars K (m_subst u1) m_type0;
                (child, g) = ngen_mk_child (m_ngen u1);
                u2 = u1\<lparr>m_ngen := g\<rparr>;
                rlist = fn m_type (m_subst u2) child;
                j = mk_composite1 c_jst m_type_jst
            in case rlist of
                 r # rest \<Rightarrow>
                   let a = Assumption (m_next_assumption_idx u2);
                       (d, u3) = new_case_split K (Choice_case_split m m_type_jst rest) u2
                   in process_choice_result pc m r (mk_composite1 j a) (add_case_split d u3)
               | [] \<Rightarrow> Return (False, set_conflict j u2))
      | _ \<Rightarrow> Throw Assertion_violation)"

definition process_plugin_constraint ::
  "'tc kernel \<Rightarrow> 'tc process \<Rightarrow> constraint \<Rightarrow> 'tc unifier_fn \<Rightarrow> (bool \<times> 'tc unifier_fn) res" where
  "process_plugin_constraint K pc c u =
     (let (child, g) = ngen_mk_child (m_ngen u);
          u1 = u\<lparr>m_ngen := g\<rparr>;
          alts = m_plugin u1 c child
      in case alts of
           [] \<Rightarrow> Return (False, set_conflict (get_justification c) u1)
         | r # rest \<Rightarrow>
             let a = Assumption (m_next_assumption_idx u1);
                 (d, u2) = new_case_split K (Plugin_case_split rest) u1
             in process_constraints pc r a (add_case_split d u2))"

text \<open>\<^verbatim>\<open>is_flex_rigid\<close>, \<^verbatim>\<open>is_flex_flex\<close> (lines 803-814).\<close>

fun is_flex_rigid :: "constraint \<Rightarrow> bool" where
  "is_flex_rigid (Eq_cnstr l r j) = (is_meta l \<noteq> is_meta r)"
| "is_flex_rigid c = False"

fun is_flex_flex :: "constraint \<Rightarrow> bool" where
  "is_flex_flex (Eq_cnstr l r j) = (is_meta l \<and> is_meta r)"
| "is_flex_flex c = False"

section \<open>The engine: flex-rigid constraints\<close>

text \<open>The projections of \<^verbatim>\<open>process_flex_rigid\<close> (lines 826-839). The loop runs over the
  arguments of the metavariable with the counter \<^verbatim>\<open>vidx\<close>, which starts at
  \<^verbatim>\<open>margs.size() - 1\<close> and goes down by one per argument. The counter is unsigned in the
  source; it is read only inside the loop, where it has not yet passed zero, so the
  natural numbers' truncated subtraction gives every value that is read.\<close>

fun flex_rigid_projections ::
  "expr \<Rightarrow> expr \<Rightarrow> expr \<Rightarrow> justification \<Rightarrow> nat \<Rightarrow> expr list \<Rightarrow> constraint list list" where
  "flex_rigid_projections m mtype rhs j vidx [] = []"
| "flex_rigid_projections m mtype rhs j vidx (marg # margs) =
     (if \<not> is_local marg \<and> \<not> is_local rhs then
        [[Eq_cnstr marg rhs j, Eq_cnstr m (mk_lambda_for mtype (Var vidx)) j]]
      else if is_local marg \<and> marg = rhs then
        [[Eq_cnstr m (mk_lambda_for mtype (Var vidx)) j]]
      else [])
     @ flex_rigid_projections m mtype rhs j (vidx - 1) margs"

text \<open>The imitation of \<^verbatim>\<open>process_flex_rigid\<close> (lines 841-888): the constraints \<^verbatim>\<open>cs\<close>, or
  \<open>None\<close> when \<^verbatim>\<open>imitate\<close> is false. \<open>imitation_args\<close> is the loop that makes one auxiliary
  metavariable per argument of the right-hand side.\<close>

fun imitation_args ::
  "expr \<Rightarrow> expr list \<Rightarrow> justification \<Rightarrow> expr list \<Rightarrow> 'tc unifier_fn \<Rightarrow>
   constraint list \<times> expr list \<times> 'tc unifier_fn" where
  "imitation_args mtype margs j [] u = ([], [], u)"
| "imitation_args mtype margs j (rarg # rargs) u =
     (let (maux, u1) = mk_aux_metavar_for mtype u;
          c = Eq_cnstr (mk_app maux margs) rarg j;
          sarg = mk_app_vars maux (length margs);
          (cs, sargs, u2) = imitation_args mtype margs j rargs u1
      in (c # cs, sarg # sargs, u2))"

fun update_binding :: "expr \<Rightarrow> expr \<Rightarrow> expr \<Rightarrow> expr" where
  "update_binding (Lambda d b) new_domain new_body = Lambda new_domain new_body"
| "update_binding e new_domain new_body = Pi new_domain new_body"

definition flex_rigid_imitation ::
  "'tc kernel \<Rightarrow> expr \<Rightarrow> expr \<Rightarrow> expr list \<Rightarrow> expr \<Rightarrow> justification \<Rightarrow> 'tc unifier_fn \<Rightarrow>
   (constraint list option \<times> 'tc unifier_fn) res" where
  "flex_rigid_imitation K m mtype margs rhs j u =
     (if is_app rhs then
        let (cs, sargs, u1) = imitation_args mtype margs j (get_app_args rhs) u;
            v = mk_lambda_for mtype (mk_app (get_app_fn rhs) sargs)
        in Return (Some (cs @ [Eq_cnstr m v j]), u1)
      else if is_binding rhs then
        let (maux1, u1) = mk_aux_metavar_for mtype u;
            c1 = Eq_cnstr (mk_app maux1 margs) (binding_domain rhs) j;
            pi = Pi (binding_domain rhs) (binding_body rhs);
            mtype2 = replace_range mtype pi;
            (maux2, u2) = mk_aux_metavar_for mtype2 u1;
            (ln, g) = ngen_next (m_ngen u2);
            u3 = u2\<lparr>m_ngen := g\<rparr>;
            new_local = Local ln (binding_domain rhs);
            c2 = Eq_cnstr (App (mk_app maux2 margs) new_local)
                   (instantiate K (binding_body rhs) new_local) j;
            v = mk_lambda_for mtype
                  (update_binding rhs (mk_app_vars maux1 (length margs))
                     (mk_app_vars maux2 (length margs + 1)))
        in Return (Some [c1, c2, Eq_cnstr m v j], u3)
      else if is_sort rhs \<or> is_constant rhs then
        Return (Some [Eq_cnstr m (mk_lambda_for mtype rhs) j], u)
      else if is_local rhs then Return (None, u)
      else
        (case rhs of
           Macro d as \<Rightarrow>
             let (cs, sargs, u1) = imitation_args mtype margs j as u;
                 v = mk_lambda_for mtype (Macro d sargs)
             in Return (Some (cs @ [Eq_cnstr m v j]), u1)
         | _ \<Rightarrow> Throw Assertion_violation))"

text \<open>The alternatives of \<^verbatim>\<open>process_flex_rigid\<close>: the buffer \<^verbatim>\<open>alts\<close> at line 889, the
  projections followed by the imitation when there is one.\<close>

definition flex_rigid_alternatives ::
  "'tc kernel \<Rightarrow> expr \<Rightarrow> expr \<Rightarrow> justification \<Rightarrow> 'tc unifier_fn \<Rightarrow>
   (constraint list list \<times> 'tc unifier_fn) res" where
  "flex_rigid_alternatives K lhs rhs j u =
     (let margs = get_app_args lhs;
          m = get_app_fn lhs;
          mtype = mlocal_type m;
          projections = flex_rigid_projections m mtype rhs j (length margs - 1) margs
      in bind_res (flex_rigid_imitation K m mtype margs rhs j u) (\<lambda>(imitation, u1).
           Return (projections @ (case imitation of Some cs \<Rightarrow> [cs] | None \<Rightarrow> []), u1)))"

text \<open>\<^verbatim>\<open>process_flex_rigid\<close> (lines 817-901): the alternatives, then what is done with them
  (lines 890-900).\<close>

definition process_flex_rigid ::
  "'tc kernel \<Rightarrow> 'tc process \<Rightarrow> expr \<Rightarrow> expr \<Rightarrow> justification \<Rightarrow> 'tc unifier_fn \<Rightarrow>
   (bool \<times> 'tc unifier_fn) res" where
  "process_flex_rigid K pc lhs rhs j u =
     bind_res (flex_rigid_alternatives K lhs rhs j u) (\<lambda>(alts, u1).
       case alts of
         [] \<Rightarrow> Return (False, set_conflict j u1)
       | [alt] \<Rightarrow> process_constraints pc alt Nojust u1
       | alt # rest \<Rightarrow>
           let a = Assumption (m_next_assumption_idx u1);
               (d, u2) = new_case_split K (Ho_case_split rest) u1
           in process_constraints pc alt a (add_case_split d u2))"

text \<open>\<^verbatim>\<open>process_flex_rigid\<close> on a constraint (lines 904-910), \<^verbatim>\<open>process_flex_flex\<close> (lines
  912-916) and \<^verbatim>\<open>process_next\<close> (lines 919-931).\<close>

definition process_flex_rigid_cnstr ::
  "'tc kernel \<Rightarrow> 'tc process \<Rightarrow> constraint \<Rightarrow> 'tc unifier_fn \<Rightarrow> (bool \<times> 'tc unifier_fn) res" where
  "process_flex_rigid_cnstr K pc c u =
     (case c of
        Eq_cnstr l r j \<Rightarrow>
          if is_meta l then process_flex_rigid K pc l r j u
          else process_flex_rigid K pc r l j u
      | _ \<Rightarrow> Throw Assertion_violation)"

definition process_flex_flex :: "constraint \<Rightarrow> 'tc unifier_fn \<Rightarrow> (bool \<times> 'tc unifier_fn) res" where
  "process_flex_flex c u = Return (True, u)"

definition process_next ::
  "'tc kernel \<Rightarrow> 'tc process \<Rightarrow> 'tc unifier_fn \<Rightarrow> (bool \<times> 'tc unifier_fn) res" where
  "process_next K pc u =
     (case m_cnstrs u of
        [] \<Rightarrow> Throw Assertion_violation
      | x # rest \<Rightarrow>
          let c = fst x;
              u1 = u\<lparr>m_cnstrs := rest\<rparr>
          in if is_choice_cnstr c then process_choice_constraint K pc c u1
             else if is_flex_rigid c then process_flex_rigid_cnstr K pc c u1
             else if is_flex_flex c then process_flex_flex c u1
             else process_plugin_constraint K pc c u1)"

section \<open>The engine: solutions\<close>

text \<open>\<^verbatim>\<open>next\<close> (lines 934-961). \<open>next_loop\<close> is its \<^verbatim>\<open>while\<close> loop over the queue, which need
  not end; the fuel bounds its iterations.\<close>

primrec next_loop ::
  "'tc kernel \<Rightarrow> 'tc process \<Rightarrow> nat \<Rightarrow> 'tc unifier_fn \<Rightarrow> (substitution option \<times> 'tc unifier_fn) res" where
  "next_loop K pc 0 u =
     (if m_cnstrs u = [] then Return (Some (m_subst u), u) else Out_of_fuel)"
| "next_loop K pc (Suc fuel) u =
     (if m_cnstrs u = [] then Return (Some (m_subst u), u)
      else bind_res (check_system u) (\<lambda>u1.
        bind_res (process_next K pc u1) (\<lambda>(ok, u2).
          if \<not> ok then
            bind_res (resolve_conflict K pc u2) (\<lambda>(resolved, u3).
              if \<not> resolved then failure u3 else next_loop K pc fuel u3)
          else next_loop K pc fuel u2)))"

definition next_solution ::
  "'tc kernel \<Rightarrow> nat \<Rightarrow> 'tc unifier_fn \<Rightarrow> (substitution option \<times> 'tc unifier_fn) res" where
  "next_solution K fuel u =
     (let pc = process_constraint K fuel in
      if in_conflict u then failure u
      else if m_case_splits u \<noteq> [] then
        let all_assumptions =
              foldl (\<lambda>a cs. mk_composite1 a (Assumption (cs_assumption_idx cs))) Nojust
                (rev (m_case_splits u));
            u1 = set_conflict all_assumptions u
        in bind_res (resolve_conflict K pc u1) (\<lambda>(resolved, u2).
             if \<not> resolved then failure u2 else next_loop K pc fuel u2)
      else if m_first u then next_loop K pc fuel (u\<lparr>m_first := False\<rparr>)
      else Return (None, u))"

text \<open>The constructor of \<^verbatim>\<open>unifier_fn\<close> (lines 282-294): the type checker is built from a
  child of the name generator, and the constraints given are dispatched one by one.\<close>

definition mk_unifier_fn ::
  "'tc kernel \<Rightarrow> nat \<Rightarrow> constraint list \<Rightarrow> name_generator \<Rightarrow> substitution \<Rightarrow> unifier_plugin \<Rightarrow>
   bool \<Rightarrow> 32 word \<Rightarrow> 'tc unifier_fn res" where
  "mk_unifier_fn K fuel cs ngen s p use_exception max_steps =
     (let (child, g) = ngen_mk_child ngen in
      callbacks (process_constraint K fuel) cs
        \<lparr>m_ngen = g, m_subst = s, m_plugin = p, m_tc = mk_type_checker K child,
         m_use_exception = use_exception, m_max_steps = max_steps, m_num_steps = 0,
         m_first = True, m_next_assumption_idx = 0, m_next_cidx = 0, m_cnstrs = [],
         m_mvar_occs = Map.empty, m_mlvl_occs = Map.empty, m_case_splits = [],
         m_conflict = None\<rparr>)"

text \<open>The lazy list of solutions. \<^verbatim>\<open>unify\<close> on an engine (lines 964-972) is the stream
  whose every pull calls \<^verbatim>\<open>next\<close> on the shared engine; the other two streams are the
  empty list and the list of one substitution that the entry points return.\<close>

datatype 'tc solutions =
    No_solutions
  | One_solution substitution
  | Engine_solutions "'tc unifier_fn"

definition pull ::
  "'tc kernel \<Rightarrow> nat \<Rightarrow> 'tc solutions \<Rightarrow> (substitution \<times> 'tc solutions) option res" where
  "pull K fuel l =
     (case l of
        No_solutions \<Rightarrow> Return None
      | One_solution s \<Rightarrow> Return (Some (s, No_solutions))
      | Engine_solutions u \<Rightarrow>
          bind_res (next_solution K fuel u) (\<lambda>(s, u').
            case s of
              Some s' \<Rightarrow> Return (Some (s', Engine_solutions u'))
            | None \<Rightarrow> Return None))"

text \<open>\<^verbatim>\<open>unify\<close> on a list of constraints (lines 974-977).\<close>

definition unify_cnstrs ::
  "'tc kernel \<Rightarrow> nat \<Rightarrow> constraint list \<Rightarrow> name_generator \<Rightarrow> unifier_plugin \<Rightarrow> bool \<Rightarrow> 32 word \<Rightarrow>
   'tc solutions res" where
  "unify_cnstrs K fuel cs ngen p use_exception max_steps =
     bind_res (mk_unifier_fn K fuel cs ngen empty_substitution p use_exception max_steps)
       (\<lambda>u. Return (Engine_solutions u))"

text \<open>\<^verbatim>\<open>unify\<close> on two expressions (lines 995-1021). The callback of its type checker keeps
  the substitution \<^verbatim>\<open>s\<close>, the buffer \<^verbatim>\<open>cs\<close> and the flag \<^verbatim>\<open>failed\<close>.\<close>

definition unify_callback ::
  "substitution \<times> constraint list \<times> bool \<Rightarrow> constraint \<Rightarrow> substitution \<times> constraint list \<times> bool" where
  "unify_callback st c =
     (case st of (s, cs, failed) \<Rightarrow>
        if \<not> failed then
          (case unify_simple_cnstr s c of
             (Solved, s') \<Rightarrow> (s', cs, failed)
           | (Failed, s') \<Rightarrow> (s, cs, True)
           | (Unsupported, s') \<Rightarrow> (s, cs @ [c], failed))
        else (s, cs, failed))"

definition unify ::
  "'tc kernel \<Rightarrow> nat \<Rightarrow> expr \<Rightarrow> expr \<Rightarrow> name_generator \<Rightarrow> unifier_plugin \<Rightarrow> 32 word \<Rightarrow>
   'tc solutions res" where
  "unify K fuel lhs rhs ngen p max_steps =
     (let (child, new_ngen) = ngen_mk_child ngen;
          tc = mk_type_checker K child
      in case tc_is_def_eq K tc lhs rhs Nojust of
           Inl e \<Rightarrow> Throw (Kernel_error e)
         | Inr (eq, emitted, tc') \<Rightarrow>
             (case foldl unify_callback (empty_substitution, [], False) emitted of
                (s, cs, failed) \<Rightarrow>
                  if \<not> eq \<or> failed then Return No_solutions
                  else if cs = [] then Return (One_solution s)
                  else bind_res (mk_unifier_fn K fuel cs ngen s p False max_steps)
                         (\<lambda>u. Return (Engine_solutions u))))"

section \<open>Notions of the specification\<close>

text \<open>The definitions of this section are not taken from the source. They say, in the
  specification's words, what the theorems below compare the engine with.\<close>









text \<open>The projection alternative of argument position \<open>i\<close> (counted from 1) of a flex-rigid
  constraint \<open>?m a1 ... ak =?= R\<close>, as section 4.7 of the specification lists them.\<close>

definition projection_alternative ::
  "expr \<Rightarrow> expr \<Rightarrow> expr list \<Rightarrow> expr \<Rightarrow> justification \<Rightarrow> nat \<Rightarrow> constraint list list" where
  "projection_alternative m mtype margs R j i =
     (let a = margs ! (i - 1); k = length margs in
      if is_local a \<and> a = R then [[Eq_cnstr m (mk_lambda_for mtype (Var (k - i))) j]]
      else if \<not> is_local a \<and> \<not> is_local R then
        [[Eq_cnstr a R j, Eq_cnstr m (mk_lambda_for mtype (Var (k - i))) j]]
      else [])"

text \<open>The three bands of the constraint queue (section 4.1), an insertion into a band, and
  the insertion-ids a sequence of insertions hands out, one after the other.\<close>

datatype band = Regular | Delayed | Very_delayed

fun band_base :: "band \<Rightarrow> 32 word" where
  "band_base Regular = 0"
| "band_base Delayed = g_first_delayed"
| "band_base Very_delayed = g_first_very_delayed"

fun band_rank :: "band \<Rightarrow> nat" where
  "band_rank Regular = 0"
| "band_rank Delayed = 1"
| "band_rank Very_delayed = 2"

fun in_band :: "band \<Rightarrow> 32 word \<Rightarrow> bool" where
  "in_band Regular i = (i < 2 ^ 28)"
| "in_band Delayed i = (2 ^ 28 \<le> i \<and> i < 2 ^ 30)"
| "in_band Very_delayed i = (2 ^ 30 \<le> i)"

fun add_to_band :: "band \<Rightarrow> constraint \<Rightarrow> 'tc unifier_fn \<Rightarrow> 'tc unifier_fn" where
  "add_to_band Regular c u = add_cnstr c None None 0 u"
| "add_to_band Delayed c u = add_delayed_cnstr c None None u"
| "add_to_band Very_delayed c u = add_very_delayed_cnstr c None None u"

fun insertions :: "(band \<times> constraint) list \<Rightarrow> 'tc unifier_fn \<Rightarrow> 'tc unifier_fn" where
  "insertions [] u = u"
| "insertions ((b, c) # ins) u = insertions ins (add_to_band b c u)"

fun insertion_ids :: "(band \<times> constraint) list \<Rightarrow> 'tc unifier_fn \<Rightarrow> (band \<times> 32 word) list" where
  "insertion_ids [] u = []"
| "insertion_ids ((b, c) # ins) u =
     (b, m_next_cidx u + band_base b) # insertion_ids ins (add_to_band b c u)"

text \<open>A number of calls of \<^verbatim>\<open>check_system\<close> in a row: the steps of a workload that never
  ends.\<close>

fun check_system_times :: "nat \<Rightarrow> 'tc unifier_fn \<Rightarrow> 'tc unifier_fn res" where
  "check_system_times 0 u = Return u"
| "check_system_times (Suc k) u = bind_res (check_system u) (check_system_times k)"

text \<open>A number of pulls on a stream of solutions: the answer of the last one.\<close>

fun pull_nth :: "'tc kernel \<Rightarrow> nat \<Rightarrow> nat \<Rightarrow> 'tc solutions \<Rightarrow> (substitution \<times> 'tc solutions) option res" where
  "pull_nth K fuel 0 l = pull K fuel l"
| "pull_nth K fuel (Suc k) l =
     bind_res (pull K fuel l) (\<lambda>r. case r of None \<Rightarrow> Return None | Some (s, l') \<Rightarrow> pull_nth K fuel k l')"

text \<open>"Any constraint it emits gets status Failed from unify_simple": the constraints are
  run through the simple unifier one after the other, each under the substitution the
  solved ones before it have built, until one of them fails.\<close>

fun gets_failed :: "substitution \<Rightarrow> constraint list \<Rightarrow> bool" where
  "gets_failed s [] = False"
| "gets_failed s (c # cs) =
     (case unify_simple_cnstr s c of
        (Solved, s') \<Rightarrow> gets_failed s' cs
      | (Failed, s') \<Rightarrow> True
      | (Unsupported, s') \<Rightarrow> gets_failed s cs)"

text \<open>A call keeps the engine quiet when it does not raise the no-more-solutions exception
  and, when it returns, leaves \<open>m_use_exception\<close> as it was; \<open>sel\<close> reads the engine in
  what the call returns. A stream of solutions is quiet when its engine, if it has one,
  does not use the exception.\<close>

definition keeps :: "('a \<Rightarrow> 'tc unifier_fn) \<Rightarrow> 'tc unifier_fn \<Rightarrow> 'a res \<Rightarrow> bool" where
  "keeps sel u r =
     ((\<forall>j. r \<noteq> Throw (Unifier_exception j)) \<and>
      (\<forall>x. r = Return x \<longrightarrow> m_use_exception (sel x) = m_use_exception u))"

definition quiet_process :: "'tc process \<Rightarrow> bool" where
  "quiet_process pc = (\<forall>c u. keeps snd u (pc c u))"

fun quiet_solutions :: "'tc solutions \<Rightarrow> bool" where
  "quiet_solutions (Engine_solutions u) = (\<not> m_use_exception u)"
| "quiet_solutions l = True"

subsection \<open>Sample inputs\<close>

text \<open>Modelled from the spec: a sample kernel for the concrete inputs below. Its type
  checker has no state, emits no constraint and raises no error; it gives a constant
  \<open>c\<close> the type \<open>c.type\<close>, a metavariable or local constant its declared type and
  everything else the sort of level zero; it reduces nothing; and it holds two
  expressions definitionally equal when they are structurally equal. Its
  \<^verbatim>\<open>instantiate_metavars\<close> replaces every assigned metavariable by its value, composes the
  justifications of the assignments it used and lists the metavariables it left.\<close>

fun sample_infer :: "expr \<Rightarrow> expr" where
  "sample_infer (Constant n ls) = Constant (Str n ''type'') []"
| "sample_infer (Meta n t) = t"
| "sample_infer (Local n t) = t"
| "sample_infer e = Sort LZero"

fun sample_instantiate_metavars ::
  "substitution \<Rightarrow> expr \<Rightarrow> expr \<times> justification \<times> name list \<times> name list" where
  "sample_instantiate_metavars s (Meta n t) =
     (case expr_subst s n of
        Some (v, j) \<Rightarrow> (v, j, [], [])
      | None \<Rightarrow> (Meta n t, Nojust, [], [n]))"
| "sample_instantiate_metavars s (App f a) =
     (case (sample_instantiate_metavars s f, sample_instantiate_metavars s a) of
        ((f', jf, lf, ef), (a', ja, la, ea)) \<Rightarrow>
          (App f' a', mk_composite1 jf ja, lf @ la, ef @ ea))"
| "sample_instantiate_metavars s (Lambda d b) =
     (case (sample_instantiate_metavars s d, sample_instantiate_metavars s b) of
        ((d', jd, ld, ed), (b', jb, lb, eb)) \<Rightarrow>
          (Lambda d' b', mk_composite1 jd jb, ld @ lb, ed @ eb))"
| "sample_instantiate_metavars s (Pi d b) =
     (case (sample_instantiate_metavars s d, sample_instantiate_metavars s b) of
        ((d', jd, ld, ed), (b', jb, lb, eb)) \<Rightarrow>
          (Pi d' b', mk_composite1 jd jb, ld @ lb, ed @ eb))"
| "sample_instantiate_metavars s e = (e, Nojust, [], [])"

definition sample_kernel :: "unit kernel" where
  "sample_kernel =
     \<lparr>tc_infer = (\<lambda>tc e. Inr (sample_infer e, [], tc)),
      tc_whnf = (\<lambda>tc e. Inr (e, [], tc)),
      tc_is_def_eq = (\<lambda>tc a b j. Inr (a = b, [], tc)),
      tc_push = (\<lambda>tc. tc),
      tc_pop = (\<lambda>tc. tc),
      mk_type_checker = (\<lambda>g. ()),
      instantiate_metavars = sample_instantiate_metavars,
      instantiate_metavars_level = (\<lambda>s l. (l, Nojust, [])),
      normalize = (\<lambda>l. l),
      instantiate = (\<lambda>b v. b)\<rparr>"

text \<open>Modelled from the spec: a second sample kernel, whose definitional-equality check
  decides nothing: it emits the pair as an equality constraint and answers true.\<close>

definition emitting_kernel :: "unit kernel" where
  "emitting_kernel = sample_kernel\<lparr>tc_is_def_eq := (\<lambda>tc a b j. Inr (True, [Eq_cnstr a b j], tc))\<rparr>"

definition sample_ngen :: name_generator where
  "sample_ngen = \<lparr>ng_prefix = Str Anonymous ''g'', ng_next_idx = 0\<rparr>"

definition no_plugin :: unifier_plugin where
  "no_plugin = (\<lambda>c g. [])"

text \<open>The engine as its constructor leaves it when it is given no constraint.\<close>

definition sample_engine :: "32 word \<Rightarrow> unit unifier_fn" where
  "sample_engine max_steps =
     \<lparr>m_ngen = snd (ngen_mk_child sample_ngen), m_subst = empty_substitution,
      m_plugin = no_plugin, m_tc = (), m_use_exception = True, m_max_steps = max_steps,
      m_num_steps = 0, m_first = True, m_next_assumption_idx = 0, m_next_cidx = 0,
      m_cnstrs = [], m_mvar_occs = Map.empty, m_mlvl_occs = Map.empty, m_case_splits = [],
      m_conflict = None\<rparr>"

definition ex_type :: expr where "ex_type = Sort LZero"
definition ex_m :: expr where "ex_m = Meta (Str Anonymous ''m'') ex_type"
definition ex_n :: expr where "ex_n = Meta (Str Anonymous ''n'') ex_type"
definition ex_h :: expr where "ex_h = Meta (Str Anonymous ''h'') (Pi ex_type (Pi ex_type ex_type))"
definition ex_c :: expr where "ex_c = Constant (Str Anonymous ''c'') []"
definition ex_f :: expr where "ex_f = Constant (Str Anonymous ''f'') []"
definition ex_x :: expr where "ex_x = Local (Str Anonymous ''x'') ex_type"
definition ex_y :: expr where "ex_y = Local (Str Anonymous ''y'') ex_type"
definition ex_u :: level where "ex_u = LMeta (Str Anonymous ''u'')"

definition ex_a :: expr where "ex_a = Meta (Str Anonymous ''a'') ex_type"

text \<open>An engine in whose substitution \<open>?a\<close> is assigned the constant \<open>f\<close>.\<close>

definition ex_subst :: substitution where
  "ex_subst = subst_assign empty_substitution (Str Anonymous ''a'') ex_f (Asserted 1)"

definition ex_engine :: "unit unifier_fn" where
  "ex_engine = (sample_engine 0)\<lparr>m_subst := ex_subst\<rparr>"

definition ex_choice :: constraint where
  "ex_choice = Choice_cnstr ex_m (\<lambda>t s g. []) (Asserted 0) False"

section \<open>Properties of the simple unifier\<close>
















lemma occurs_meta_meta: "is_meta_level a \<Longrightarrow> is_meta_level b \<Longrightarrow> occurs a b = (b = a)"
  by (cases a; cases b) auto

lemma unify_simple_core_level_status:
  "fst (unify_simple_core_level s a b j) =
     (if occurs a b then (if is_succ b then Failed else Unsupported) else Solved)"
  by (simp add: unify_simple_core_level_def)

lemma unify_simple_level_sym:
  "fst (unify_simple_level s a b j) = fst (unify_simple_level s b a j)"
proof (induction s a b j rule: unify_simple_level.induct)
  case (1 s lhs rhs j)
  show ?case
  proof (cases "lhs = rhs \<or> (\<not> has_meta lhs \<and> \<not> has_meta rhs)")
    case True
    then show ?thesis
      by (subst unify_simple_level.simps, subst (2) unify_simple_level.simps) auto
  next
    case False
    show ?thesis
    proof (cases "is_meta_level lhs \<or> is_meta_level rhs")
      case True
      with False show ?thesis
        by (subst unify_simple_level.simps, subst (2) unify_simple_level.simps)
           (auto simp: unify_simple_core_level_status occurs_meta_meta)
    next
      case nometa: False
      show ?thesis
      proof (cases "is_succ lhs \<and> is_succ rhs")
        case True
        with False nometa "1.IH" have "fst (unify_simple_level s (succ_of lhs) (succ_of rhs) j) =
            fst (unify_simple_level s (succ_of rhs) (succ_of lhs) j)"
          by simp
        with True False nometa show ?thesis
          by (subst unify_simple_level.simps, subst (2) unify_simple_level.simps) auto
      next
        case nosucc: False
        with False nometa show ?thesis
          by (subst unify_simple_level.simps, subst (2) unify_simple_level.simps) auto
      qed
    qed
  qed
qed

text \<open>C9, as amended. On universe levels \<open>unify_simple\<close> gives the same status for
  \<open>(a, b)\<close> and \<open>(b, a)\<close>, whatever the status. On expressions it gives the same status
  for \<open>(x, y)\<close> and \<open>(y, x)\<close> whenever the two sides are not both headed by a
  metavariable.\<close>

theorem unify_simple_symmetry:
  "fst (unify_simple_level s a b j) = fst (unify_simple_level s b a j) \<and>
   (\<not> (is_meta x \<and> is_meta y) \<longrightarrow> fst (unify_simple s x y j) = fst (unify_simple s y x j))"
  using unify_simple_level_sym [of s a b j] by (auto simp: unify_simple_def)

text \<open>The symmetry at \<open>?u =?= succ ?u\<close> (Failed both ways) and at \<open>?m x =?= c\<close> (Solved
  both ways).\<close>

theorem unify_simple_symmetry_witness:
  "fst (unify_simple_level empty_substitution ex_u (LSucc ex_u) Nojust) = Failed \<and>
   fst (unify_simple_level empty_substitution (LSucc ex_u) ex_u Nojust) = Failed \<and>
   \<not> (is_meta (App ex_m ex_x) \<and> is_meta ex_c) \<and>
   fst (unify_simple empty_substitution (App ex_m ex_x) ex_c Nojust) = Solved \<and>
   fst (unify_simple empty_substitution ex_c (App ex_m ex_x) Nojust) = Solved"
proof -
  have a: "fst (unify_simple_level empty_substitution ex_u (LSucc ex_u) Nojust) = Failed"
    by (subst unify_simple_level.simps) (simp add: unify_simple_core_level_def ex_u_def)
  have b: "\<not> (is_meta (App ex_m ex_x) \<and> is_meta ex_c)"
    by (simp add: is_meta_def ex_c_def)
  have c: "fst (unify_simple empty_substitution (App ex_m ex_x) ex_c Nojust) = Solved"
    by (simp add: unify_simple_def unify_simple_core_def is_simple_meta_def is_meta_def
        ex_m_def ex_x_def ex_c_def occurs_context_check_def ex_type_def)
  from unify_simple_symmetry [of empty_substitution ex_u "LSucc ex_u" Nojust
      "App ex_m ex_x" ex_c] a b c
  show ?thesis by simp
qed

text \<open>C9 as it was stated fails at \<open>?m x =?= ?n\<close>: Solved (with \<open>?m\<close> assigned
  \<open>fun x, ?n\<close>), but Failed for \<open>?n =?= ?m x\<close>, where \<open>x\<close> is out of the scope of \<open>?n\<close>.\<close>

theorem unify_simple_symmetry_counterexample:
  "fst (unify_simple empty_substitution (App ex_m ex_x) ex_n Nojust) = Solved \<and>
   fst (unify_simple empty_substitution ex_n (App ex_m ex_x) Nojust) = Failed"
  by (simp add: unify_simple_def unify_simple_core_def is_simple_meta_def is_meta_def
        ex_m_def ex_x_def ex_n_def occurs_context_check_def ex_type_def)

section \<open>Properties of the queue and of the step counter\<close>

lemma add_occs_next_cidx [simp]: "m_next_cidx (add_occs cidx lv mv u) = m_next_cidx u"
proof -
  have a: "\<And>ms u. m_next_cidx (fold (\<lambda>m. add_mlvl_occ m cidx) ms u) = m_next_cidx (u :: 'a unifier_fn)"
    subgoal for ms u by (induction ms arbitrary: u) (simp_all add: add_mlvl_occ_def)
    done
  have b: "\<And>ms u. m_next_cidx (fold (\<lambda>m. add_mvar_occ m cidx) ms u) = m_next_cidx (u :: 'a unifier_fn)"
    subgoal for ms u by (induction ms arbitrary: u) (simp_all add: add_mvar_occ_def)
    done
  show ?thesis
    by (simp add: add_occs_def a b Let_def split: option.splits)
qed

lemma add_occs_cnstrs [simp]: "m_cnstrs (add_occs cidx lv mv u) = m_cnstrs u"
proof -
  have a: "\<And>ms u. m_cnstrs (fold (\<lambda>m. add_mlvl_occ m cidx) ms u) = m_cnstrs (u :: 'a unifier_fn)"
    subgoal for ms u by (induction ms arbitrary: u) (simp_all add: add_mlvl_occ_def)
    done
  have b: "\<And>ms u. m_cnstrs (fold (\<lambda>m. add_mvar_occ m cidx) ms u) = m_cnstrs (u :: 'a unifier_fn)"
    subgoal for ms u by (induction ms arbitrary: u) (simp_all add: add_mvar_occ_def)
    done
  show ?thesis
    by (simp add: add_occs_def a b Let_def split: option.splits)
qed

lemma add_cnstr_next_cidx: "m_next_cidx (add_cnstr c lv mv start u) = m_next_cidx u + 1"
  by (simp add: add_cnstr_def Let_def)

lemma add_cnstr_cnstrs:
  "m_cnstrs (add_cnstr c lv mv start u) = cnstr_set_insert (c, m_next_cidx u + start) (m_cnstrs u)"
  by (simp add: add_cnstr_def Let_def)

lemma cnstr_set_find_insert: "cnstr_set_find (snd x) (cnstr_set_insert x q) = Some x"
  by (induction q) (auto simp: cnstr_set_find_def)

lemma add_to_band_next_cidx: "m_next_cidx (add_to_band b c u) = m_next_cidx u + 1"
  by (cases b) (simp_all add: add_cnstr_next_cidx add_delayed_cnstr_def add_very_delayed_cnstr_def)

lemma add_to_band_find:
  "cnstr_set_find (m_next_cidx u + band_base b) (m_cnstrs (add_to_band b c u)) =
     Some (c, m_next_cidx u + band_base b)"
  using cnstr_set_find_insert [of "(c, m_next_cidx u + band_base b)" "m_cnstrs u"]
  by (cases b) (simp_all add: add_cnstr_cnstrs add_delayed_cnstr_def add_very_delayed_cnstr_def)

lemma length_insertion_ids: "length (insertion_ids ins u) = length ins"
  by (induction ins u rule: insertion_ids.induct) simp_all

lemma insertion_ids_nth:
  "k < length ins \<Longrightarrow>
     insertion_ids ins u ! k = (fst (ins ! k), m_next_cidx u + of_nat k + band_base (fst (ins ! k)))"
proof (induction ins u arbitrary: k rule: insertion_ids.induct)
  case (1 u)
  then show ?case by simp
next
  case (2 b c ins u)
  show ?case
  proof (cases k)
    case 0
    then show ?thesis by simp
  next
    case (Suc k')
    with 2 show ?thesis by (simp add: add_to_band_next_cidx algebra_simps)
  qed
qed

lemma band_of_small_counter:
  "k < 2 ^ 28 \<Longrightarrow> in_band b (of_nat k + band_base b)"
proof -
  assume k: "k < 2 ^ 28"
  then have u: "unat (of_nat k :: 32 word) = k"
    by (simp add: unat_of_nat)
  show ?thesis
  proof (cases b)
    case Regular
    with u k show ?thesis by (simp add: word_less_nat_alt)
  next
    case Delayed
    with u k show ?thesis
      by (simp add: word_less_nat_alt word_le_nat_alt g_first_delayed_def unat_word_ariths)
  next
    case Very_delayed
    with u k show ?thesis
      by (simp add: word_less_nat_alt word_le_nat_alt g_first_very_delayed_def unat_word_ariths)
  qed
qed

lemma in_band_order:
  "in_band b1 i1 \<Longrightarrow> in_band b2 i2 \<Longrightarrow> band_rank b1 < band_rank b2 \<Longrightarrow> i1 < i2"
  by (cases b1; cases b2) (auto simp: word_less_nat_alt word_le_nat_alt)

text \<open>C8, as amended. Every insertion puts the constraint into the queue under the
  insertion-id \<open>next_cidx\<close> plus the base of its band (0, \<open>2^28\<close>, \<open>2^30\<close>, in unsigned
  32-bit arithmetic) and increments \<open>next_cidx\<close> by one. For a sequence of at most \<open>2^28\<close>
  insertions into an engine whose \<open>next_cidx\<close> is 0, the \<open>k\<close>-th insertion (from 0) gets
  the id \<open>k\<close> plus the base of its band, so that regular ids lie in \<open>[0, 2^28)\<close>, delayed
  ones in \<open>[2^28, 2^30)\<close> and very delayed ones from \<open>2^30\<close> on, and an id of a lower band
  is strictly smaller than an id of a higher band.\<close>

theorem insertion_id_bands:
  "(cnstr_set_find (m_next_cidx v + band_base b) (m_cnstrs (add_to_band b c v)) =
      Some (c, m_next_cidx v + band_base b) \<and>
    m_next_cidx (add_to_band b c v) = m_next_cidx v + 1) \<and>
   (m_next_cidx u = 0 \<and> length ins \<le> 2 ^ 28 \<longrightarrow>
      length (insertion_ids ins u) = length ins \<and>
      (\<forall>k < length ins.
         insertion_ids ins u ! k = (fst (ins ! k), of_nat k + band_base (fst (ins ! k)))) \<and>
      (\<forall>(b, i) \<in> set (insertion_ids ins u). in_band b i) \<and>
      (\<forall>(b1, i1) \<in> set (insertion_ids ins u). \<forall>(b2, i2) \<in> set (insertion_ids ins u).
         band_rank b1 < band_rank b2 \<longrightarrow> i1 < i2))"
proof -
  have step: "cnstr_set_find (m_next_cidx v + band_base b) (m_cnstrs (add_to_band b c v)) =
      Some (c, m_next_cidx v + band_base b) \<and>
    m_next_cidx (add_to_band b c v) = m_next_cidx v + 1"
    by (simp add: add_to_band_find add_to_band_next_cidx)
  have seq: "length (insertion_ids ins u) = length ins \<and>
      (\<forall>k < length ins.
         insertion_ids ins u ! k = (fst (ins ! k), of_nat k + band_base (fst (ins ! k)))) \<and>
      (\<forall>(b, i) \<in> set (insertion_ids ins u). in_band b i) \<and>
      (\<forall>(b1, i1) \<in> set (insertion_ids ins u). \<forall>(b2, i2) \<in> set (insertion_ids ins u).
         band_rank b1 < band_rank b2 \<longrightarrow> i1 < i2)"
    if fresh: "m_next_cidx u = 0" and len: "length ins \<le> 2 ^ 28"
  proof -
    have nth: "insertion_ids ins u ! k = (fst (ins ! k), of_nat k + band_base (fst (ins ! k)))"
      if "k < length ins" for k
      using insertion_ids_nth [OF that, of u] fresh by simp
    have bands: "in_band b i" if "(b, i) \<in> set (insertion_ids ins u)" for b i
    proof -
      from that obtain k where k: "k < length ins" "insertion_ids ins u ! k = (b, i)"
        by (auto simp: in_set_conv_nth length_insertion_ids)
      with nth [of k] have "b = fst (ins ! k)" "i = of_nat k + band_base b"
        by simp_all
      moreover from k len have "k < 2 ^ 28" by simp
      ultimately show ?thesis using band_of_small_counter by simp
    qed
    have order: "i1 < i2"
      if "(b1, i1) \<in> set (insertion_ids ins u)" "(b2, i2) \<in> set (insertion_ids ins u)"
         "band_rank b1 < band_rank b2" for b1 i1 b2 i2
      using in_band_order [OF bands [OF that(1)] bands [OF that(2)] that(3)] .
    show ?thesis
      using nth bands order by (auto simp: length_insertion_ids)
  qed
  from step seq show ?thesis by blast
qed

text \<open>The bands at a delayed, a regular and a very delayed insertion into a new engine.\<close>

theorem insertion_id_bands_witness:
  "m_next_cidx (sample_engine 0) = 0 \<and>
   length [(Delayed, ex_choice), (Regular, ex_choice), (Very_delayed, ex_choice)] \<le> 2 ^ 28 \<and>
   list_all (\<lambda>(b, i). in_band b i)
     (insertion_ids [(Delayed, ex_choice), (Regular, ex_choice), (Very_delayed, ex_choice)]
        (sample_engine 0)) \<and>
   insertion_ids [(Delayed, ex_choice), (Regular, ex_choice), (Very_delayed, ex_choice)]
     (sample_engine 0) ! 2 = (Very_delayed, 2 ^ 30 + 2)"
proof -
  let ?ins = "[(Delayed, ex_choice), (Regular, ex_choice), (Very_delayed, ex_choice)]"
  let ?u = "sample_engine 0"
  have h: "m_next_cidx ?u = 0 \<and> length ?ins \<le> 2 ^ 28"
    by (simp add: sample_engine_def)
  from insertion_id_bands [of ?u Regular ex_choice ?u ?ins] h
  have a: "\<forall>(b, i) \<in> set (insertion_ids ?ins ?u). in_band b i"
    and n: "\<forall>k < length ?ins.
         insertion_ids ?ins ?u ! k = (fst (?ins ! k), of_nat k + band_base (fst (?ins ! k)))"
    by blast+
  have two: "2 < length ?ins" by simp
  have rhs: "(fst (?ins ! 2), of_nat 2 + band_base (fst (?ins ! 2))) = (Very_delayed, 2 ^ 30 + 2)"
    by (simp add: g_first_very_delayed_def)
  have c: "insertion_ids ?ins ?u ! 2 = (Very_delayed, 2 ^ 30 + 2)"
    using n [rule_format, OF two] unfolding rhs .
  from a have d: "list_all (\<lambda>(b, i). in_band b i) (insertion_ids ?ins ?u)"
    unfolding list_all_iff .
  from h c d show ?thesis by blast
qed

lemma insertion_ids_replicate_last:
  "insertion_ids (replicate n (Regular, c) @ [(Regular, c)]) u ! n = (Regular, m_next_cidx u + of_nat n)"
  using insertion_ids_nth [of n "replicate n (Regular, c) @ [(Regular, c)]" u]
  by (simp add: nth_append)

text \<open>C8 as it was stated fails for \<open>2^28 + 1\<close> regular insertions into a new engine: the
  last one gets the insertion-id \<open>2^28\<close>, which is in the band of the delayed
  constraints.\<close>

theorem insertion_id_bands_counterexample:
  "\<not> (\<forall>(b, i) \<in> set (insertion_ids (replicate (2 ^ 28) (Regular, ex_choice) @ [(Regular, ex_choice)])
          (sample_engine 0)). in_band b i)"
proof -
  have "insertion_ids (replicate (2 ^ 28) (Regular, ex_choice) @ [(Regular, ex_choice)])
          (sample_engine 0) ! (2 ^ 28) = (Regular, 2 ^ 28)"
    using insertion_ids_replicate_last [of "2 ^ 28" ex_choice "sample_engine 0"]
    by (simp add: sample_engine_def)
  moreover have "(2 :: nat) ^ 28 < length (insertion_ids (replicate (2 ^ 28) (Regular, ex_choice) @ [(Regular, ex_choice)])
          (sample_engine 0))"
    by (simp add: length_insertion_ids)
  ultimately have "(Regular, 2 ^ 28) \<in> set (insertion_ids (replicate (2 ^ 28) (Regular, ex_choice) @ [(Regular, ex_choice)])
          (sample_engine 0))"
    by (metis nth_mem)
  moreover have "\<not> in_band Regular (2 ^ 28)" by simp
  ultimately show ?thesis by blast
qed

lemma process_constraint_Suc:
  "process_constraint K (Suc fuel) c u =
     (if in_conflict u then Return (False, u)
      else if m_num_steps u > m_max_steps u then Throw (Max_steps_exceeded (m_max_steps u))
      else dispatch_constraint K (process_constraint K fuel) c (u\<lparr>m_num_steps := m_num_steps u + 1\<rparr>))"
  by (simp add: process_constraint_step_def check_system_def)

lemma max_steps_bound: "(w :: 32 word) \<noteq> - 1 \<Longrightarrow> unat w < 2 ^ 32 - 1"
proof -
  assume "w \<noteq> - 1"
  then have "unat w \<noteq> unat (- 1 :: 32 word)"
    by (simp only: word_unat_eq_iff not_False_eq_True)
  moreover have "unat w < 2 ^ 32"
    using unsigned_less [of w] by simp
  moreover have "unat (- 1 :: 32 word) = 2 ^ 32 - 1"
    by (simp add: unsigned_minus_1_eq_mask mask_eq_exp_minus_1)
  ultimately show ?thesis by simp
qed

lemma check_system_times_unbounded:
  "m_max_steps u = - 1 \<Longrightarrow>
     check_system_times k u = Return (u\<lparr>m_num_steps := m_num_steps u + of_nat k\<rparr>)"
proof (induction k arbitrary: u)
  case 0
  then show ?case by simp
next
  case (Suc k)
  have "\<not> m_num_steps u > m_max_steps u"
    using Suc.prems by simp
  with Suc.IH [of "u\<lparr>m_num_steps := m_num_steps u + 1\<rparr>"] Suc.prems show ?case
    by (simp add: check_system_def add.assoc)
qed

lemma check_system_times_ok:
  "m_max_steps u \<noteq> - 1 \<Longrightarrow> unat (m_num_steps u) + k \<le> unat (m_max_steps u) + 1 \<Longrightarrow>
     check_system_times k u = Return (u\<lparr>m_num_steps := m_num_steps u + of_nat k\<rparr>)"
proof (induction k arbitrary: u)
  case 0
  then show ?case by simp
next
  case (Suc k)
  have bound: "unat (m_max_steps u) < 2 ^ 32 - 1"
    using Suc.prems(1) max_steps_bound by blast
  from Suc.prems have le: "unat (m_num_steps u) \<le> unat (m_max_steps u)" by simp
  then have nothrow: "\<not> m_num_steps u > m_max_steps u"
    by (simp add: word_less_nat_alt)
  from le bound have inc: "unat (m_num_steps u + 1) = unat (m_num_steps u) + 1"
    by (simp add: unat_word_ariths)
  let ?u1 = "u\<lparr>m_num_steps := m_num_steps u + 1\<rparr>"
  from Suc.prems inc have "unat (m_num_steps ?u1) + k \<le> unat (m_max_steps ?u1) + 1"
    by simp
  from Suc.IH [OF _ this] Suc.prems(1) nothrow show ?case
    by (simp add: check_system_def add.assoc)
qed

lemma check_system_times_throw:
  "m_max_steps u \<noteq> - 1 \<Longrightarrow> 0 < k \<Longrightarrow> unat (m_max_steps u) + 1 < unat (m_num_steps u) + k \<Longrightarrow>
     check_system_times k u = Throw (Max_steps_exceeded (m_max_steps u))"
proof (induction k arbitrary: u)
  case 0
  then show ?case by simp
next
  case (Suc k)
  show ?case
  proof (cases "m_num_steps u > m_max_steps u")
    case True
    then show ?thesis by (simp add: check_system_def)
  next
    case False
    then have le: "unat (m_num_steps u) \<le> unat (m_max_steps u)"
      by (simp add: word_less_nat_alt)
    have bound: "unat (m_max_steps u) < 2 ^ 32 - 1"
      using Suc.prems(1) max_steps_bound by blast
    from le bound have inc: "unat (m_num_steps u + 1) = unat (m_num_steps u) + 1"
      by (simp add: unat_word_ariths)
    let ?u1 = "u\<lparr>m_num_steps := m_num_steps u + 1\<rparr>"
    from Suc.prems le have k: "0 < k" by arith
    from Suc.prems inc have "unat (m_max_steps ?u1) + 1 < unat (m_num_steps ?u1) + k"
      by simp
    from Suc.IH [OF _ k this] Suc.prems(1) False show ?thesis
      by (simp add: check_system_def)
  qed
qed

text \<open>C4, as amended. A dispatch in conflict does nothing. Otherwise it first tests the
  step counter: when the counter already exceeds \<open>max_steps\<close> it raises the step-limit
  exception, and when not it increments the counter and goes on to the constraint. So,
  from a counter of 0, the first \<open>max_steps + 1\<close> steps go through (which leaves the
  counter above \<open>max_steps\<close>) and it is the step after them, number \<open>max_steps + 2\<close>, that
  raises the exception; with \<open>max_steps = 2^32 - 1\<close> no step ever does.\<close>

theorem step_limit_after_max_steps_plus_one:
  "process_constraint K (Suc fuel) c u =
     (if in_conflict u then Return (False, u)
      else if m_num_steps u > m_max_steps u then Throw (Max_steps_exceeded (m_max_steps u))
      else dispatch_constraint K (process_constraint K fuel) c (u\<lparr>m_num_steps := m_num_steps u + 1\<rparr>)) \<and>
   (m_num_steps v = 0 \<longrightarrow>
      check_system_times k v =
        (if m_max_steps v = - 1 \<or> k \<le> unat (m_max_steps v) + 1
         then Return (v\<lparr>m_num_steps := of_nat k\<rparr>)
         else Throw (Max_steps_exceeded (m_max_steps v))))"
proof -
  have "check_system_times k v =
        (if m_max_steps v = - 1 \<or> k \<le> unat (m_max_steps v) + 1
         then Return (v\<lparr>m_num_steps := of_nat k\<rparr>)
         else Throw (Max_steps_exceeded (m_max_steps v)))" if z: "m_num_steps v = 0"
  proof (cases "m_max_steps v = - 1")
    case True
    with check_system_times_unbounded [of v k] z show ?thesis by simp
  next
    case bounded: False
    show ?thesis
    proof (cases "k \<le> unat (m_max_steps v) + 1")
      case True
      with check_system_times_ok [of v k] z bounded show ?thesis by simp
    next
      case False
      with check_system_times_throw [of v k] z bounded show ?thesis by simp
    qed
  qed
  with process_constraint_Suc [of K fuel c u] show ?thesis by blast
qed

text \<open>The step limit at \<open>max_steps = 1\<close>: two steps go through, the third raises.\<close>

theorem step_limit_after_max_steps_plus_one_witness:
  "m_num_steps (sample_engine 1) = 0 \<and>
   check_system_times 2 (sample_engine 1) = Return ((sample_engine 1)\<lparr>m_num_steps := 2\<rparr>) \<and>
   check_system_times 3 (sample_engine 1) = Throw (Max_steps_exceeded 1)"
proof -
  have z: "m_num_steps (sample_engine 1) = 0" by (simp add: sample_engine_def)
  have m: "unat (m_max_steps (sample_engine 1)) = 1" by (simp add: sample_engine_def)
  have m': "m_max_steps (sample_engine 1) = 1" by (simp add: sample_engine_def)
  from step_limit_after_max_steps_plus_one [of sample_kernel 0 ex_choice "sample_engine 1"
      "sample_engine 1" 2] z m m'
  have a: "check_system_times 2 (sample_engine 1) = Return ((sample_engine 1)\<lparr>m_num_steps := 2\<rparr>)"
    by simp
  from step_limit_after_max_steps_plus_one [of sample_kernel 0 ex_choice "sample_engine 1"
      "sample_engine 1" 3] z m m'
  have b: "check_system_times 3 (sample_engine 1) = Throw (Max_steps_exceeded 1)"
    by simp
  from z a b show ?thesis by blast
qed

text \<open>C4 as it was stated fails at \<open>max_steps = 1\<close>: two dispatches in a row both return
  normally, the second one although \<open>max_steps\<close> dispatches came before it, and it leaves
  the counter at 2, above \<open>max_steps\<close>, with no exception raised.\<close>

theorem step_limit_counterexample:
  "\<exists>u1 u2. process_constraint sample_kernel 1 ex_choice (sample_engine 1) = Return (True, u1) \<and>
     m_num_steps u1 = 1 \<and>
     process_constraint sample_kernel 1 ex_choice u1 = Return (True, u2) \<and>
     m_num_steps u2 = 2 \<and> m_max_steps u2 = 1"
  by (simp add: process_constraint_step_def check_system_def dispatch_constraint_def
      in_conflict_def sample_engine_def ex_choice_def add_cnstr_def add_occs_def Let_def)

section \<open>Properties of the flex-rigid alternatives\<close>

lemma flex_rigid_projections_suffix:
  "flex_rigid_projections m mtype rhs j (length suf - 1) suf =
     concat (map (projection_alternative m mtype (pre @ suf) rhs j)
       [Suc (length pre)..<Suc (length pre + length suf)])"
proof (induction suf arbitrary: pre)
  case Nil
  then show ?case by simp
next
  case (Cons a suf)
  have ih: "flex_rigid_projections m mtype rhs j (length suf - 1) suf =
     concat (map (projection_alternative m mtype ((pre @ [a]) @ suf) rhs j)
       [Suc (length (pre @ [a]))..<Suc (length (pre @ [a]) + length suf)])"
    using Cons.IH [of "pre @ [a]"] .
  have hd: "projection_alternative m mtype (pre @ a # suf) rhs j (Suc (length pre)) =
      (if \<not> is_local a \<and> \<not> is_local rhs then
        [[Eq_cnstr a rhs j, Eq_cnstr m (mk_lambda_for mtype (Var (length suf))) j]]
      else if is_local a \<and> a = rhs then
        [[Eq_cnstr m (mk_lambda_for mtype (Var (length suf))) j]]
      else [])"
    by (simp add: projection_alternative_def Let_def nth_append)
  have split: "[Suc (length pre)..<Suc (length pre + length (a # suf))] =
      Suc (length pre) # [Suc (Suc (length pre))..<Suc (Suc (length pre) + length suf)]"
    by (subst upt_conv_Cons) (simp_all del: upt_Suc)
  show ?case
    unfolding split using ih hd by (simp del: upt_Suc)
qed

text \<open>C7. For every flex-rigid constraint \<open>?m a1 ... ak =?= R\<close>, the alternatives are the
  projection alternatives of the positions \<open>1, ..., k\<close> in this order, followed by the
  imitation when there is one. Position \<open>i\<close> gives the single constraint
  \<open>?m := fun xs, #(k - i)\<close> when \<open>ai\<close> is a local constant equal to \<open>R\<close>, the two
  constraints \<open>ai =?= R\<close> and \<open>?m := fun xs, #(k - i)\<close> when neither \<open>ai\<close> nor \<open>R\<close> is a
  local constant, and nothing otherwise; the binders come from the type of \<open>?m\<close>.\<close>

theorem flex_rigid_projection_positions:
  "flex_rigid_alternatives K lhs rhs j u =
     bind_res
       (flex_rigid_imitation K (get_app_fn lhs) (mlocal_type (get_app_fn lhs)) (get_app_args lhs) rhs j u)
       (\<lambda>(imitation, u1).
          Return
            (concat (map (projection_alternative (get_app_fn lhs) (mlocal_type (get_app_fn lhs))
                       (get_app_args lhs) rhs j) [1..<Suc (length (get_app_args lhs))])
             @ (case imitation of Some cs \<Rightarrow> [cs] | None \<Rightarrow> []), u1))"
  using flex_rigid_projections_suffix [of "get_app_fn lhs" "mlocal_type (get_app_fn lhs)" rhs j
      "get_app_args lhs" "[]"]
  by (simp add: flex_rigid_alternatives_def Let_def)

text \<open>The alternatives of \<open>?h x c =?= x\<close> (the projection on the first argument, and no
  imitation of a local constant) and of \<open>?h x c =?= f\<close> (the projection on the second
  argument with \<open>c =?= f\<close>, then the imitation).\<close>

theorem flex_rigid_projection_positions_witness:
  "flex_rigid_alternatives sample_kernel (App (App ex_h ex_x) ex_c) ex_x (Asserted 0) (sample_engine 0) =
     Return ([[Eq_cnstr ex_h (Lambda ex_type (Lambda ex_type (Var 1))) (Asserted 0)]], sample_engine 0) \<and>
   flex_rigid_alternatives sample_kernel (App (App ex_h ex_x) ex_c) ex_f (Asserted 0) (sample_engine 0) =
     Return ([[Eq_cnstr ex_c ex_f (Asserted 0),
               Eq_cnstr ex_h (Lambda ex_type (Lambda ex_type (Var 0))) (Asserted 0)],
              [Eq_cnstr ex_h (Lambda ex_type (Lambda ex_type ex_f)) (Asserted 0)]], sample_engine 0)"
proof -
  have a: "flex_rigid_alternatives sample_kernel (App (App ex_h ex_x) ex_c) ex_x (Asserted 0) (sample_engine 0) =
     Return ([[Eq_cnstr ex_h (Lambda ex_type (Lambda ex_type (Var 1))) (Asserted 0)]], sample_engine 0)"
    using flex_rigid_projection_positions [of sample_kernel "App (App ex_h ex_x) ex_c" ex_x
        "Asserted 0" "sample_engine 0"]
    by (simp add: projection_alternative_def flex_rigid_imitation_def ex_h_def ex_x_def ex_c_def
        ex_type_def upt_conv_Cons del: upt_Suc)
  have b: "flex_rigid_alternatives sample_kernel (App (App ex_h ex_x) ex_c) ex_f (Asserted 0) (sample_engine 0) =
     Return ([[Eq_cnstr ex_c ex_f (Asserted 0),
               Eq_cnstr ex_h (Lambda ex_type (Lambda ex_type (Var 0))) (Asserted 0)],
              [Eq_cnstr ex_h (Lambda ex_type (Lambda ex_type ex_f)) (Asserted 0)]], sample_engine 0)"
    using flex_rigid_projection_positions [of sample_kernel "App (App ex_h ex_x) ex_c" ex_f
        "Asserted 0" "sample_engine 0"]
    by (simp add: projection_alternative_def flex_rigid_imitation_def ex_h_def ex_x_def ex_c_def
        ex_f_def ex_type_def upt_conv_Cons del: upt_Suc)
  from a b show ?thesis by blast
qed

section \<open>Properties of the engine\<close>

lemma next_loop_empty_queue:
  "m_cnstrs u = [] \<Longrightarrow> next_loop K pc fuel u = Return (Some (m_subst u), u)"
  by (cases fuel) simp_all

text \<open>C2. An engine built from an empty list of constraints, with whatever fuel, gives on
  the first pull of its stream of solutions the substitution it was built with, and on
  the second pull the end of the stream.\<close>

theorem empty_constraint_set_one_solution:
  "\<exists>u0 u1.
     mk_unifier_fn K fuel [] ngen s p use_exception max_steps = Return u0 \<and>
     pull K fuel1 (Engine_solutions u0) = Return (Some (s, Engine_solutions u1)) \<and>
     pull K fuel2 (Engine_solutions u1) = Return None"
proof -
  obtain child g where cg: "ngen_mk_child ngen = (child, g)"
    by (cases "ngen_mk_child ngen") blast
  define u0 :: "'a unifier_fn" where
    "u0 = \<lparr>m_ngen = g, m_subst = s, m_plugin = p, m_tc = mk_type_checker K child,
         m_use_exception = use_exception, m_max_steps = max_steps, m_num_steps = 0,
         m_first = True, m_next_assumption_idx = 0, m_next_cidx = 0, m_cnstrs = [],
         m_mvar_occs = Map.empty, m_mlvl_occs = Map.empty, m_case_splits = [],
         m_conflict = None\<rparr>"
  define u1 where "u1 = u0\<lparr>m_first := False\<rparr>"
  have a: "mk_unifier_fn K fuel [] ngen s p use_exception max_steps = Return u0"
    by (simp add: mk_unifier_fn_def cg u0_def)
  have "next_solution K fuel1 u0 = Return (Some s, u1)"
    using next_loop_empty_queue [of u1 K "process_constraint K fuel1" fuel1]
    by (simp add: next_solution_def in_conflict_def u0_def u1_def)
  then have b: "pull K fuel1 (Engine_solutions u0) = Return (Some (s, Engine_solutions u1))"
    by (simp add: pull_def)
  have "next_solution K fuel2 u1 = Return (None, u1)"
    by (simp add: next_solution_def in_conflict_def u0_def u1_def)
  then have c: "pull K fuel2 (Engine_solutions u1) = Return None"
    by (simp add: pull_def)
  from a b c show ?thesis by blast
qed

text \<open>The two pulls on the engine built over the sample kernel.\<close>

theorem empty_constraint_set_one_solution_witness:
  "mk_unifier_fn sample_kernel 0 [] sample_ngen empty_substitution no_plugin True 0 =
     Return (sample_engine 0) \<and>
   pull sample_kernel 0 (Engine_solutions (sample_engine 0)) =
     Return (Some (empty_substitution, Engine_solutions ((sample_engine 0)\<lparr>m_first := False\<rparr>))) \<and>
   pull sample_kernel 0 (Engine_solutions ((sample_engine 0)\<lparr>m_first := False\<rparr>)) = Return None"
proof -
  from empty_constraint_set_one_solution [of sample_kernel 0 sample_ngen empty_substitution
      no_plugin True 0 0 0]
  obtain u0 u1 where
    a: "mk_unifier_fn sample_kernel 0 [] sample_ngen empty_substitution no_plugin True 0 = Return u0"
    and b: "pull sample_kernel 0 (Engine_solutions u0) = Return (Some (empty_substitution, Engine_solutions u1))"
    and c: "pull sample_kernel 0 (Engine_solutions u1) = Return None"
    by blast
  have u0: "u0 = sample_engine 0"
    using a by (simp add: mk_unifier_fn_def sample_engine_def sample_kernel_def split: prod.splits)
  have u1: "u1 = (sample_engine 0)\<lparr>m_first := False\<rparr>"
    using b unfolding u0
    by (simp add: pull_def next_solution_def in_conflict_def sample_engine_def Let_def)
  from a b c show ?thesis unfolding u0 u1 by simp
qed

text \<open>C3 does not hold of the code. Assigning the constant \<open>c\<close>, of type \<open>c.type\<close>, to the
  metavariable \<open>?m\<close>, declared with the sort of level zero as its type: the two types
  are not definitionally equal, \<open>assign\<close> returns false, and no conflict is set; the
  dispatch of the constraint \<open>?m =?= c\<close> that leads there returns false without a
  conflict as well.\<close>

theorem assign_type_mismatch_no_conflict:
  "(\<exists>u'. assign sample_kernel (process_constraint sample_kernel 0) ex_m ex_c (Asserted 0)
            (sample_engine 0) = Return (False, u') \<and> m_conflict u' = None) \<and>
   (\<exists>u'. process_constraint sample_kernel 1 (Eq_cnstr ex_m ex_c (Asserted 0))
            (sample_engine 0) = Return (False, u') \<and> m_conflict u' = None)"
  by (simp add: assign_def tc_call_def sample_kernel_def in_conflict_def sample_engine_def
      ex_m_def ex_c_def ex_type_def Let_def process_constraint_step_def check_system_def
      dispatch_constraint_def process_eq_constraint_def process_metavar_eq_def is_meta_def
      is_simple_meta_def occurs_context_check_def empty_substitution_def
      lambda_abstract_locals_def abstract_locals_def)

lemma unit_tc_update [simp]: "(u :: unit unifier_fn)\<lparr>m_tc := ()\<rparr> = u"
  by (cases u) simp

lemma sample_instantiate_lhs:
  "instantiate_metavars sample_kernel (m_subst ex_engine) (App ex_a (App ex_n ex_c)) =
     (App ex_f (App ex_n ex_c), Asserted 1, [] @ [], [] @ [Str Anonymous ''n''])"
  by (simp add: sample_kernel_def ex_engine_def ex_subst_def subst_assign_def
      empty_substitution_def ex_a_def ex_n_def ex_c_def mk_composite1_def)

lemma sample_instantiate_rhs:
  "instantiate_metavars sample_kernel (m_subst ex_engine) ex_c = (ex_c, Nojust, [], [])"
  by (simp add: sample_kernel_def ex_c_def)

lemma sample_no_pattern:
  "process_metavar_eq sample_kernel pc (App ex_f (App ex_n ex_c)) ex_c j u = Return (Continue, u)"
  "process_metavar_eq sample_kernel pc ex_c (App ex_f (App ex_n ex_c)) j u = Return (Continue, u)"
  by (simp_all add: process_metavar_eq_def is_meta_def ex_f_def ex_c_def)

lemma sample_whnf:
  "tc_call pc (tc_whnf sample_kernel (m_tc u) e) u = Return (e, u)"
  by (simp add: tc_call_def sample_kernel_def)

text \<open>C5, as amended. In the handling of an equality constraint, once the instantiated
  sides are different, contain a metavariable and neither is a pattern to assign, both
  are reduced to weak-head normal form. The definitional-equality check is retried exactly
  when a reduced side differs from the side of the constraint as it was given, before
  instantiation (so also when only the instantiation changed it); if the check returns
  true the constraint is discharged, and if it returns false the conflict is set to the
  composed justification. Otherwise the constraint is enqueued in the band of its
  shape.\<close>

theorem process_eq_constraint_retry:
  assumes "instantiate_metavars K (m_subst u) c_lhs = (lhs, lhs_jst, lvls1, exprs1)"
    and "instantiate_metavars K (m_subst u) c_rhs = (rhs, rhs_jst, lvls2, exprs2)"
    and "lhs \<noteq> rhs" and "has_metavar lhs \<or> has_metavar rhs"
    and "new_jst = mk_composite1 (mk_composite1 c_jst lhs_jst) rhs_jst"
    and "process_metavar_eq K pc lhs rhs new_jst u = Return (Continue, u1)"
    and "process_metavar_eq K pc rhs lhs new_jst u1 = Return (Continue, u2)"
    and "tc_call pc (tc_whnf K (m_tc u2) rhs) u2 = Return (rhs', u3)"
    and "tc_call pc (tc_whnf K (m_tc u3) lhs) u3 = Return (lhs', u4)"
  shows "process_eq_constraint K pc (Eq_cnstr c_lhs c_rhs c_jst) u =
     (if lhs' \<noteq> c_lhs \<or> rhs' \<noteq> c_rhs then
        bind_res (tc_call pc (tc_is_def_eq K (m_tc u4) lhs' rhs' new_jst) u4) (\<lambda>(eq, u5).
          if eq then Return (True, u5) else Return (False, set_conflict new_jst u5))
      else if is_meta lhs' \<and> is_meta rhs' then
        Return (True, add_very_delayed_cnstr (Eq_cnstr c_lhs c_rhs c_jst)
                        (Some (lvls1 @ lvls2)) (Some (exprs1 @ exprs2)) u4)
      else if is_meta lhs' \<or> is_meta rhs' then
        Return (True, add_delayed_cnstr (Eq_cnstr c_lhs c_rhs c_jst)
                        (Some (lvls1 @ lvls2)) (Some (exprs1 @ exprs2)) u4)
      else
        Return (True, add_cnstr (Eq_cnstr c_lhs c_rhs c_jst)
                        (Some (lvls1 @ lvls2)) (Some (exprs1 @ exprs2)) 0 u4))"
proof -
  from assms(4) have nm: "(\<not> has_metavar lhs \<and> \<not> has_metavar rhs) = False"
    by blast
  show ?thesis
    unfolding assms(5) process_eq_constraint_def
    using assms(1-3) assms(6-9) [unfolded assms(5)] by (simp add: Let_def nm)
qed

text \<open>The retry at \<open>?a (?n c) =?= c\<close> with \<open>?a\<close> assigned \<open>f\<close>.\<close>

theorem process_eq_constraint_retry_witness:
  "process_eq_constraint sample_kernel (process_constraint sample_kernel 0)
     (Eq_cnstr (App ex_a (App ex_n ex_c)) ex_c (Asserted 0)) ex_engine =
     Return (False, set_conflict (Composite (Asserted 0) (Asserted 1)) ex_engine)"
proof -
  have neq: "App ex_f (App ex_n ex_c) \<noteq> ex_c"
    by (simp add: ex_c_def)
  have mv: "has_metavar (App ex_f (App ex_n ex_c)) \<or> has_metavar ex_c"
    by (simp add: ex_n_def)
  have j: "Composite (Asserted 0) (Asserted 1) =
      mk_composite1 (mk_composite1 (Asserted 0) (Asserted 1)) Nojust"
    by (simp add: mk_composite1_def)
  have changed: "App ex_f (App ex_n ex_c) \<noteq> App ex_a (App ex_n ex_c)"
    by (simp add: ex_f_def ex_a_def)
  have deq: "tc_call (process_constraint sample_kernel 0)
      (tc_is_def_eq sample_kernel (m_tc ex_engine) (App ex_f (App ex_n ex_c)) ex_c
         (Composite (Asserted 0) (Asserted 1))) ex_engine = Return (False, ex_engine)"
    using neq by (simp add: tc_call_def sample_kernel_def)
  from process_eq_constraint_retry [OF sample_instantiate_lhs sample_instantiate_rhs neq mv j
      sample_no_pattern(1) sample_no_pattern(2) sample_whnf sample_whnf] changed deq
  show ?thesis by simp
qed

text \<open>C5 as it was stated fails at \<open>?a (?n c) =?= c\<close> with \<open>?a\<close> assigned \<open>f\<close>: the
  instantiated sides are \<open>f (?n c)\<close> and \<open>c\<close>, the reduction changes neither, and yet the
  check is retried: the constraint fails with the composed justification as the conflict,
  where without a retry it would have been enqueued.\<close>

theorem process_eq_constraint_retry_counterexample:
  "fst (instantiate_metavars sample_kernel (m_subst ex_engine) (App ex_a (App ex_n ex_c))) =
     App ex_f (App ex_n ex_c) \<and>
   tc_whnf sample_kernel (m_tc ex_engine) (App ex_f (App ex_n ex_c)) =
     Inr (App ex_f (App ex_n ex_c), [], m_tc ex_engine) \<and>
   fst (instantiate_metavars sample_kernel (m_subst ex_engine) ex_c) = ex_c \<and>
   tc_whnf sample_kernel (m_tc ex_engine) ex_c = Inr (ex_c, [], m_tc ex_engine) \<and>
   process_eq_constraint sample_kernel (process_constraint sample_kernel 0)
     (Eq_cnstr (App ex_a (App ex_n ex_c)) ex_c (Asserted 0)) ex_engine =
     Return (False, set_conflict (Composite (Asserted 0) (Asserted 1)) ex_engine)"
  by (simp add: process_eq_constraint_def process_metavar_eq_def tc_call_def sample_kernel_def
      ex_engine_def ex_subst_def subst_assign_def empty_substitution_def is_meta_def
      ex_a_def ex_n_def ex_c_def ex_f_def mk_composite1_def Let_def)

text \<open>Processing a list of constraints under a justification dispatches each constraint
  with that justification composed onto its own; under the empty justification the
  constraints are dispatched as they are.\<close>

lemma process_constraints_loop_callbacks:
  "process_constraints_loop pc cs j u =
     callbacks pc (map (\<lambda>c. update_justification c (mk_composite1 (get_justification c) j)) cs) u"
proof (induction cs arbitrary: u)
  case Nil
  then show ?case by simp
next
  case (Cons c cs)
  then show ?case
    by (cases "pc (update_justification c (mk_composite1 (get_justification c) j)) u")
       (auto simp: Cons.IH)
qed

lemma update_justification_Nojust:
  "map (\<lambda>c. update_justification c (mk_composite1 (get_justification c) Nojust)) cs = cs"
proof -
  have "update_justification c (mk_composite1 (get_justification c) Nojust) = c" for c
    by (cases c) (simp_all add: mk_composite1_def)
  then show ?thesis by (simp add: map_idI)
qed

text \<open>C6. When \<open>process_flex_rigid\<close> has its alternatives for a constraint with
  justification \<open>j\<close>: with no alternative it sets the conflict to \<open>j\<close> and fails; with
  exactly one it dispatches the constraints of that alternative as they are, with no
  case split pushed and no assumption added; with more than one it pushes a case split
  that holds the tail of the alternatives (and the state as it is) and dispatches the
  constraints of the head alternative, each with the assumption of the next assumption
  index composed onto its justification; that index is the one the case split takes,
  and the counter moves past it. In the last two cases the answer is whether the engine
  is free of conflict afterwards.\<close>

theorem process_flex_rigid_policy:
  "flex_rigid_alternatives K lhs rhs j u = Return (alts, u1) \<Longrightarrow>
   process_flex_rigid K pc lhs rhs j u =
     (case alts of
        [] \<Rightarrow> Return (False, u1\<lparr>m_conflict := Some j\<rparr>)
      | [alt] \<Rightarrow> bind_res (callbacks pc alt u1) (\<lambda>u'. Return (\<not> in_conflict u', u'))
      | alt # rest \<Rightarrow>
          bind_res
            (callbacks pc
               (map (\<lambda>c. update_justification c
                       (mk_composite1 (get_justification c)
                          (Assumption (m_next_assumption_idx u1)))) alt)
               (u1\<lparr>m_next_assumption_idx := m_next_assumption_idx u1 + 1,
                   m_tc := tc_push K (m_tc u1),
                   m_case_splits :=
                     \<lparr>cs_assumption_idx = m_next_assumption_idx u1,
                      cs_failed_justifications = Nojust,
                      cs_subst = m_subst u1, cs_cnstrs = m_cnstrs u1,
                      cs_mvar_occs = m_mvar_occs u1, cs_mlvl_occs = m_mlvl_occs u1,
                      cs_tail = Ho_case_split rest\<rparr> # m_case_splits u1\<rparr>))
            (\<lambda>u'. Return (\<not> in_conflict u', u')))"
  by (simp add: process_flex_rigid_def set_conflict_def new_case_split_def add_case_split_def
      process_constraints_def process_constraints_loop_callbacks update_justification_Nojust
      split: list.splits)

lemma sample_alternatives_two:
  "flex_rigid_alternatives sample_kernel (App (App ex_h ex_x) ex_c) ex_f (Asserted 0) (sample_engine 0) =
     Return ([[Eq_cnstr ex_c ex_f (Asserted 0),
               Eq_cnstr ex_h (Lambda ex_type (Lambda ex_type (Var 0))) (Asserted 0)],
              [Eq_cnstr ex_h (Lambda ex_type (Lambda ex_type ex_f)) (Asserted 0)]], sample_engine 0)"
  by (simp add: Let_def flex_rigid_alternatives_def flex_rigid_imitation_def ex_h_def ex_x_def ex_c_def
      ex_f_def ex_type_def)

lemma sample_alternatives_one:
  "flex_rigid_alternatives sample_kernel (App (App ex_h ex_x) ex_c) ex_x (Asserted 0) (sample_engine 0) =
     Return ([[Eq_cnstr ex_h (Lambda ex_type (Lambda ex_type (Var 1))) (Asserted 0)]], sample_engine 0)"
  by (simp add: Let_def flex_rigid_alternatives_def flex_rigid_imitation_def ex_h_def ex_x_def ex_c_def
      ex_type_def)

lemma sample_alternatives_none:
  "flex_rigid_alternatives sample_kernel (App ex_m ex_x) ex_y (Asserted 0) (sample_engine 0) =
     Return ([], sample_engine 0)"
  by (simp add: Let_def flex_rigid_alternatives_def flex_rigid_imitation_def ex_m_def ex_x_def ex_y_def
      ex_type_def)

text \<open>The three cases at \<open>?m x =?= y\<close> (no alternative), \<open>?h x c =?= x\<close> (one) and
  \<open>?h x c =?= f\<close> (two). In the last, the two constraints of the head alternative are
  dispatched with the assumption 0 composed onto their justification; the first of
  them, \<open>c =?= f\<close>, fails, and the conflict is its justification with the assumption.\<close>

theorem process_flex_rigid_policy_witness:
  "process_flex_rigid sample_kernel (process_constraint sample_kernel 1) (App ex_m ex_x) ex_y
     (Asserted 0) (sample_engine 0) =
     Return (False, (sample_engine 0)\<lparr>m_conflict := Some (Asserted 0)\<rparr>) \<and>
   process_flex_rigid sample_kernel (process_constraint sample_kernel 1) (App (App ex_h ex_x) ex_c) ex_x
     (Asserted 0) (sample_engine 0) =
     bind_res (callbacks (process_constraint sample_kernel 1)
                 [Eq_cnstr ex_h (Lambda ex_type (Lambda ex_type (Var 1))) (Asserted 0)] (sample_engine 0))
       (\<lambda>u'. Return (\<not> in_conflict u', u')) \<and>
   process_flex_rigid sample_kernel (process_constraint sample_kernel 1) (App (App ex_h ex_x) ex_c) ex_f
     (Asserted 0) (sample_engine 0) =
     bind_res
       (callbacks (process_constraint sample_kernel 1)
          [Eq_cnstr ex_c ex_f (Composite (Asserted 0) (Assumption 0)),
           Eq_cnstr ex_h (Lambda ex_type (Lambda ex_type (Var 0)))
             (Composite (Asserted 0) (Assumption 0))]
          ((sample_engine 0)\<lparr>m_next_assumption_idx := 1, m_tc := (),
             m_case_splits :=
               [\<lparr>cs_assumption_idx = 0, cs_failed_justifications = Nojust,
                 cs_subst = empty_substitution, cs_cnstrs = [],
                 cs_mvar_occs = Map.empty, cs_mlvl_occs = Map.empty,
                 cs_tail = Ho_case_split
                   [[Eq_cnstr ex_h (Lambda ex_type (Lambda ex_type ex_f)) (Asserted 0)]]\<rparr>]\<rparr>))
       (\<lambda>u'. Return (\<not> in_conflict u', u')) \<and>
   process_flex_rigid sample_kernel (process_constraint sample_kernel 1) (App (App ex_h ex_x) ex_c) ex_f
     (Asserted 0) (sample_engine 0) =
     Return (False,
       (sample_engine 0)\<lparr>m_num_steps := 1, m_next_assumption_idx := 1,
          m_case_splits :=
            [\<lparr>cs_assumption_idx = 0, cs_failed_justifications = Nojust,
              cs_subst = empty_substitution, cs_cnstrs = [],
              cs_mvar_occs = Map.empty, cs_mlvl_occs = Map.empty,
              cs_tail = Ho_case_split
                [[Eq_cnstr ex_h (Lambda ex_type (Lambda ex_type ex_f)) (Asserted 0)]]\<rparr>],
          m_conflict := Some (Composite (Asserted 0) (Assumption 0))\<rparr>)"
proof -
  have a: "process_flex_rigid sample_kernel (process_constraint sample_kernel 1) (App ex_m ex_x) ex_y
     (Asserted 0) (sample_engine 0) =
     Return (False, (sample_engine 0)\<lparr>m_conflict := Some (Asserted 0)\<rparr>)"
    using process_flex_rigid_policy [OF sample_alternatives_none, of "process_constraint sample_kernel 1"]
    by simp
  have b: "process_flex_rigid sample_kernel (process_constraint sample_kernel 1) (App (App ex_h ex_x) ex_c) ex_x
     (Asserted 0) (sample_engine 0) =
     bind_res (callbacks (process_constraint sample_kernel 1)
                 [Eq_cnstr ex_h (Lambda ex_type (Lambda ex_type (Var 1))) (Asserted 0)] (sample_engine 0))
       (\<lambda>u'. Return (\<not> in_conflict u', u'))"
    using process_flex_rigid_policy [OF sample_alternatives_one, of "process_constraint sample_kernel 1"]
    by (simp only: list.case)
  have f: "m_next_assumption_idx (sample_engine 0) = 0" "m_subst (sample_engine 0) = empty_substitution"
    "m_cnstrs (sample_engine 0) = []" "m_mvar_occs (sample_engine 0) = Map.empty"
    "m_mlvl_occs (sample_engine 0) = Map.empty" "m_case_splits (sample_engine 0) = []"
    "tc_push sample_kernel (m_tc (sample_engine 0)) = ()"
    by (simp_all add: sample_engine_def sample_kernel_def)
  have c: "process_flex_rigid sample_kernel (process_constraint sample_kernel 1) (App (App ex_h ex_x) ex_c) ex_f
     (Asserted 0) (sample_engine 0) =
     bind_res
       (callbacks (process_constraint sample_kernel 1)
          [Eq_cnstr ex_c ex_f (Composite (Asserted 0) (Assumption 0)),
           Eq_cnstr ex_h (Lambda ex_type (Lambda ex_type (Var 0)))
             (Composite (Asserted 0) (Assumption 0))]
          ((sample_engine 0)\<lparr>m_next_assumption_idx := 1, m_tc := (),
             m_case_splits :=
               [\<lparr>cs_assumption_idx = 0, cs_failed_justifications = Nojust,
                 cs_subst = empty_substitution, cs_cnstrs = [],
                 cs_mvar_occs = Map.empty, cs_mlvl_occs = Map.empty,
                 cs_tail = Ho_case_split
                   [[Eq_cnstr ex_h (Lambda ex_type (Lambda ex_type ex_f)) (Asserted 0)]]\<rparr>]\<rparr>))
       (\<lambda>u'. Return (\<not> in_conflict u', u'))"
    using process_flex_rigid_policy [OF sample_alternatives_two, of "process_constraint sample_kernel 1"]
    by (simp only: list.case f list.map update_justification.simps get_justification.simps)
       (simp add: mk_composite1_def)
  have d: "bind_res
       (callbacks (process_constraint sample_kernel 1)
          [Eq_cnstr ex_c ex_f (Composite (Asserted 0) (Assumption 0)),
           Eq_cnstr ex_h (Lambda ex_type (Lambda ex_type (Var 0)))
             (Composite (Asserted 0) (Assumption 0))]
          ((sample_engine 0)\<lparr>m_next_assumption_idx := 1, m_tc := (),
             m_case_splits :=
               [\<lparr>cs_assumption_idx = 0, cs_failed_justifications = Nojust,
                 cs_subst = empty_substitution, cs_cnstrs = [],
                 cs_mvar_occs = Map.empty, cs_mlvl_occs = Map.empty,
                 cs_tail = Ho_case_split
                   [[Eq_cnstr ex_h (Lambda ex_type (Lambda ex_type ex_f)) (Asserted 0)]]\<rparr>]\<rparr>))
       (\<lambda>u'. Return (\<not> in_conflict u', u')) =
     Return (False,
       (sample_engine 0)\<lparr>m_num_steps := 1, m_next_assumption_idx := 1,
          m_case_splits :=
            [\<lparr>cs_assumption_idx = 0, cs_failed_justifications = Nojust,
              cs_subst = empty_substitution, cs_cnstrs = [],
              cs_mvar_occs = Map.empty, cs_mlvl_occs = Map.empty,
              cs_tail = Ho_case_split
                [[Eq_cnstr ex_h (Lambda ex_type (Lambda ex_type ex_f)) (Asserted 0)]]\<rparr>],
          m_conflict := Some (Composite (Asserted 0) (Assumption 0))\<rparr>)"
    by (simp add: process_constraint_step_def check_system_def dispatch_constraint_def
        process_eq_constraint_def in_conflict_def set_conflict_def sample_kernel_def
        sample_engine_def ex_c_def ex_f_def mk_composite1_def Let_def)
  from a b c d show ?thesis by simp
qed

section \<open>Properties of the entry point on two expressions\<close>

text \<open>No function of the engine but \<open>failure\<close> raises the no-more-solutions exception, and
  none changes \<open>m_use_exception\<close>.\<close>

lemma keeps_Return: "m_use_exception (sel x) = m_use_exception u \<Longrightarrow> keeps sel u (Return x)"
  by (simp add: keeps_def)

lemma keeps_Throw: "(\<And>j. e \<noteq> Unifier_exception j) \<Longrightarrow> keeps sel u (Throw e)"
  by (simp add: keeps_def)

lemma keeps_Out_of_fuel: "keeps sel u Out_of_fuel"
  by (simp add: keeps_def)

lemma keeps_bind:
  "keeps sel u m \<Longrightarrow>
   (\<And>x. m = Return x \<Longrightarrow> m_use_exception (sel x) = m_use_exception u \<Longrightarrow>
      keeps sel' (sel x) (f x)) \<Longrightarrow>
   keeps sel' u (bind_res m f)"
  by (cases m) (auto simp: keeps_def)

lemma keeps_cong: "m_use_exception u = m_use_exception v \<Longrightarrow> keeps sel v r \<Longrightarrow> keeps sel u r"
  by (simp add: keeps_def)

lemma quiet_processD: "quiet_process pc \<Longrightarrow> keeps snd u (pc c u)"
  by (simp add: quiet_process_def)

lemma add_occs_use_exception [simp]:
  "m_use_exception (add_occs cidx lv mv u) = m_use_exception u"
proof -
  have a: "\<And>ms u. m_use_exception (fold (\<lambda>m. add_mlvl_occ m cidx) ms u) = m_use_exception (u :: 'a unifier_fn)"
    subgoal for ms u by (induction ms arbitrary: u) (simp_all add: add_mlvl_occ_def)
    done
  have b: "\<And>ms u. m_use_exception (fold (\<lambda>m. add_mvar_occ m cidx) ms u) = m_use_exception (u :: 'a unifier_fn)"
    subgoal for ms u by (induction ms arbitrary: u) (simp_all add: add_mvar_occ_def)
    done
  show ?thesis
    by (simp add: add_occs_def a b Let_def split: option.splits)
qed

lemma add_cnstr_use_exception [simp]:
  "m_use_exception (add_cnstr c lv mv start u) = m_use_exception u"
  "m_use_exception (add_delayed_cnstr c lv mv u) = m_use_exception u"
  "m_use_exception (add_very_delayed_cnstr c lv mv u) = m_use_exception u"
  by (simp_all add: add_cnstr_def add_delayed_cnstr_def add_very_delayed_cnstr_def Let_def)

lemma conflict_use_exception [simp]:
  "m_use_exception (set_conflict j u) = m_use_exception u"
  "m_use_exception (update_conflict j u) = m_use_exception u"
  "m_use_exception (reset_conflict u) = m_use_exception u"
  by (simp_all add: set_conflict_def update_conflict_def reset_conflict_def)

lemma keeps_check_system: "keeps (\<lambda>x. x) u (check_system u)"
  by (simp add: check_system_def keeps_def)

lemma keeps_callbacks: "quiet_process pc \<Longrightarrow> keeps (\<lambda>x. x) u (callbacks pc cs u)"
proof (induction cs arbitrary: u)
  case Nil
  then show ?case by (simp add: keeps_def)
next
  case (Cons c cs)
  show ?case
    unfolding callbacks.simps
    by (rule keeps_bind [OF quiet_processD [OF Cons.prems]]) (auto intro: Cons.IH [OF Cons.prems])
qed

lemma keeps_tc_call: "quiet_process pc \<Longrightarrow> keeps snd u (tc_call pc r u)"
  unfolding tc_call_def
  by (auto split: sum.splits intro!: keeps_Throw keeps_bind [OF keeps_cong [OF _ keeps_callbacks]]
      keeps_Return)

lemma keeps_process_constraint_cidx:
  "quiet_process pc \<Longrightarrow> keeps snd u (process_constraint_cidx pc cidx u)"
  unfolding process_constraint_cidx_def
  by (auto split: option.splits intro!: keeps_Return keeps_cong [OF _ quiet_processD])

lemma keeps_process_cidxs: "quiet_process pc \<Longrightarrow> keeps (\<lambda>x. x) u (process_cidxs pc s u)"
proof (induction s arbitrary: u)
  case Nil
  then show ?case by (simp add: keeps_def)
next
  case (Cons c cs)
  show ?case
    unfolding process_cidxs.simps
    by (rule keeps_bind [OF keeps_process_constraint_cidx [OF Cons.prems]])
       (auto intro: Cons.IH [OF Cons.prems])
qed

lemma keeps_assign: "quiet_process pc \<Longrightarrow> keeps snd u (assign K pc m v j u)"
  unfolding assign_def Let_def
  by (auto split: option.splits
      intro!: keeps_Return keeps_bind [OF keeps_cong [OF _ keeps_tc_call]]
        keeps_bind [OF keeps_tc_call] keeps_bind [OF keeps_cong [OF _ keeps_process_cidxs]])

lemma keeps_assign_level: "quiet_process pc \<Longrightarrow> keeps snd u (assign_level pc m v j u)"
  unfolding assign_level_def Let_def
  by (auto split: option.splits
      intro!: keeps_Return keeps_bind [OF keeps_cong [OF _ keeps_process_cidxs]])

lemma keeps_process_metavar_eq:
  "quiet_process pc \<Longrightarrow> keeps snd u (process_metavar_eq K pc lhs rhs j u)"
  unfolding process_metavar_eq_def Let_def
  by (auto split: option.splits intro!: keeps_Return keeps_bind [OF keeps_assign])

lemma keeps_process_metavar_eq_level:
  "quiet_process pc \<Longrightarrow> keeps snd u (process_metavar_eq_level pc lhs rhs j u)"
  unfolding process_metavar_eq_level_def Let_def
  by (auto intro!: keeps_Return keeps_bind [OF keeps_assign_level])

lemma keeps_process_eq_constraint:
  "quiet_process pc \<Longrightarrow> keeps snd u (process_eq_constraint K pc c u)"
  unfolding process_eq_constraint_def Let_def
  by (auto split: constraint.splits prod.splits
      intro!: keeps_Return keeps_Throw keeps_bind [OF keeps_process_metavar_eq]
        keeps_bind [OF keeps_tc_call])

lemma keeps_process_level_eq_constraint:
  "quiet_process pc \<Longrightarrow> keeps snd u (process_level_eq_constraint K pc c u)"
  unfolding process_level_eq_constraint_def Let_def
  by (auto split: constraint.splits prod.splits
      intro!: keeps_Return keeps_Throw keeps_bind [OF keeps_process_metavar_eq_level])

lemma keeps_dispatch_constraint:
  "quiet_process pc \<Longrightarrow> keeps snd u (dispatch_constraint K pc c u)"
  unfolding dispatch_constraint_def
  by (auto split: constraint.splits
      intro!: keeps_Return keeps_process_eq_constraint keeps_process_level_eq_constraint)

lemma keeps_process_constraint_step:
  "quiet_process pc \<Longrightarrow> keeps snd u (process_constraint_step K pc c u)"
  unfolding process_constraint_step_def
  by (auto intro!: keeps_Return keeps_bind [OF keeps_check_system] keeps_dispatch_constraint)

lemma quiet_process_constraint: "quiet_process (process_constraint K fuel)"
proof (induction fuel)
  case 0
  then show ?case by (simp add: quiet_process_def keeps_def)
next
  case (Suc fuel)
  then show ?case
    using keeps_process_constraint_step [OF Suc, of _ K]
    by (simp add: quiet_process_def)
qed

lemma keeps_process_constraints_loop:
  "quiet_process pc \<Longrightarrow> keeps (\<lambda>x. x) u (process_constraints_loop pc cs j u)"
proof (induction cs arbitrary: u)
  case Nil
  then show ?case by (simp add: keeps_def)
next
  case (Cons c cs)
  show ?case
    unfolding process_constraints_loop.simps
    by (rule keeps_bind [OF quiet_processD [OF Cons.prems]]) (auto intro: Cons.IH [OF Cons.prems])
qed

lemma keeps_process_constraints:
  "quiet_process pc \<Longrightarrow> keeps snd u (process_constraints pc cs j u)"
  unfolding process_constraints_def
  by (auto intro!: keeps_Return keeps_bind [OF keeps_process_constraints_loop])

lemma keeps_process_choice_result:
  "quiet_process pc \<Longrightarrow> keeps snd u (process_choice_result pc m r j u)"
  unfolding process_choice_result_def Let_def
  by (auto split: prod.splits
      intro!: keeps_Return keeps_bind [OF quiet_processD] keeps_process_constraints)

lemma new_case_split_use_exception [simp]:
  "m_use_exception (snd (new_case_split K alts u)) = m_use_exception u"
  by (simp add: new_case_split_def)

lemma add_case_split_use_exception [simp]:
  "m_use_exception (add_case_split d u) = m_use_exception u"
  by (simp add: add_case_split_def)

lemma keeps_restore_state: "keeps snd u (restore_state K d u)"
  unfolding restore_state_def
  by (auto split: option.splits intro!: keeps_Return keeps_Throw)

lemma keeps_exhausted_case_split: "keeps (\<lambda>x. snd (snd x)) u (exhausted_case_split d u)"
  unfolding exhausted_case_split_def
  by (auto split: option.splits intro!: keeps_Return keeps_Throw)

lemma keeps_case_split_next:
  "quiet_process pc \<Longrightarrow> keeps (\<lambda>x. snd (snd x)) u (case_split_next K pc d u)"
  unfolding case_split_next_def Let_def
  by (auto split: case_split_alternatives.splits list.splits
      intro!: keeps_Return keeps_exhausted_case_split keeps_bind [OF keeps_restore_state]
        keeps_bind [OF keeps_process_choice_result] keeps_bind [OF keeps_process_constraints])

lemma keeps_resolve_conflict_loop:
  "quiet_process pc \<Longrightarrow> keeps snd u (resolve_conflict_loop K pc ds u)"
proof (induction ds arbitrary: u)
  case Nil
  then show ?case by (simp add: keeps_def)
next
  case (Cons d ds)
  show ?case
    unfolding resolve_conflict_loop.simps Let_def
    by (auto split: option.splits
        intro!: keeps_Return keeps_Throw
          keeps_bind [OF keeps_cong [OF _ keeps_case_split_next [OF Cons.prems]]]
          keeps_cong [OF _ Cons.IH [OF Cons.prems]])
qed

lemma keeps_resolve_conflict: "quiet_process pc \<Longrightarrow> keeps snd u (resolve_conflict K pc u)"
  unfolding resolve_conflict_def by (rule keeps_resolve_conflict_loop)

lemma keeps_failure: "\<not> m_use_exception u \<Longrightarrow> keeps snd u (failure u)"
  by (simp add: failure_def keeps_def)

lemma keeps_process_choice_constraint:
  "quiet_process pc \<Longrightarrow> keeps snd u (process_choice_constraint K pc c u)"
  unfolding process_choice_constraint_def Let_def
  by (auto split: constraint.splits prod.splits list.splits
      simp: new_case_split_def
      intro!: keeps_Return keeps_Throw keeps_bind [OF keeps_tc_call]
        keeps_cong [OF _ keeps_process_choice_result])

lemma keeps_process_plugin_constraint:
  "quiet_process pc \<Longrightarrow> keeps snd u (process_plugin_constraint K pc c u)"
  unfolding process_plugin_constraint_def Let_def
  by (auto split: prod.splits list.splits
      simp: new_case_split_def
      intro!: keeps_Return keeps_cong [OF _ keeps_process_constraints])

lemma mk_aux_metavar_for_use_exception:
  "mk_aux_metavar_for t u = (x, u1) \<Longrightarrow> m_use_exception u1 = m_use_exception u"
  by (auto simp: mk_aux_type_metavar_for_def mk_aux_metavar_for_def Let_def split: prod.splits)

lemma imitation_args_use_exception:
  "imitation_args mtype margs j rargs u = (cs, sargs, u1) \<Longrightarrow>
     m_use_exception u1 = m_use_exception u"
proof (induction rargs arbitrary: u cs sargs u1)
  case Nil
  then show ?case by simp
next
  case (Cons a rargs)
  obtain maux u2 where m: "mk_aux_metavar_for mtype u = (maux, u2)"
    by (cases "mk_aux_metavar_for mtype u") blast
  obtain cs' sargs' u3 where i: "imitation_args mtype margs j rargs u2 = (cs', sargs', u3)"
    by (cases "imitation_args mtype margs j rargs u2") blast
  from Cons.prems m i have "u1 = u3"
    by (simp add: Let_def)
  with Cons.IH [OF i] mk_aux_metavar_for_use_exception [OF m] show ?case
    by simp
qed

lemma keeps_flex_rigid_imitation: "keeps snd u (flex_rigid_imitation K m mtype margs rhs j u)"
proof -
  show ?thesis
    unfolding flex_rigid_imitation_def Let_def
    by (auto split: prod.splits expr.splits intro!: keeps_Return keeps_Throw
        dest: imitation_args_use_exception)
       (metis mk_aux_metavar_for_use_exception)+
qed

lemma keeps_flex_rigid_alternatives: "keeps snd u (flex_rigid_alternatives K lhs rhs j u)"
  unfolding flex_rigid_alternatives_def Let_def
  by (auto intro!: keeps_Return keeps_bind [OF keeps_flex_rigid_imitation])

lemma keeps_process_flex_rigid:
  "quiet_process pc \<Longrightarrow> keeps snd u (process_flex_rigid K pc lhs rhs j u)"
  unfolding process_flex_rigid_def Let_def
  by (auto split: list.splits prod.splits simp: new_case_split_def
      intro!: keeps_Return keeps_bind [OF keeps_flex_rigid_alternatives]
        keeps_process_constraints keeps_cong [OF _ keeps_process_constraints])

lemma keeps_process_flex_rigid_cnstr:
  "quiet_process pc \<Longrightarrow> keeps snd u (process_flex_rigid_cnstr K pc c u)"
  unfolding process_flex_rigid_cnstr_def
  by (auto split: constraint.splits intro!: keeps_Throw keeps_process_flex_rigid)

lemma keeps_process_next: "quiet_process pc \<Longrightarrow> keeps snd u (process_next K pc u)"
  unfolding process_next_def Let_def process_flex_flex_def
  by (auto split: list.splits
      intro!: keeps_Return keeps_Throw keeps_cong [OF _ keeps_process_choice_constraint]
        keeps_cong [OF _ keeps_process_flex_rigid_cnstr]
        keeps_cong [OF _ keeps_process_plugin_constraint])

lemma keeps_next_loop:
  "quiet_process pc \<Longrightarrow> \<not> m_use_exception u \<Longrightarrow> keeps snd u (next_loop K pc fuel u)"
proof (induction fuel arbitrary: u)
  case 0
  then show ?case by (simp add: keeps_def)
next
  case (Suc fuel)
  show ?case
    unfolding next_loop.simps
    using Suc.prems
    by (auto intro!: keeps_Return keeps_bind [OF keeps_check_system]
        keeps_bind [OF keeps_process_next] keeps_bind [OF keeps_resolve_conflict]
        keeps_failure Suc.IH)
qed

lemma keeps_next_solution:
  "\<not> m_use_exception u \<Longrightarrow> keeps snd u (next_solution K fuel u)"
  unfolding next_solution_def Let_def
  by (auto intro!: keeps_Return keeps_failure keeps_next_loop quiet_process_constraint
      keeps_bind [OF keeps_cong [OF _ keeps_resolve_conflict]]
      keeps_cong [OF _ keeps_next_loop])

lemma unify_callback_failed:
  "foldl unify_callback (s, cs, True) emitted = (s, cs, True)"
  by (induction emitted) (simp_all add: unify_callback_def)

lemma unify_callback_gets_failed:
  "snd (snd (foldl unify_callback (s, cs, False) emitted)) = gets_failed s emitted"
proof (induction emitted arbitrary: s cs)
  case Nil
  then show ?case by simp
next
  case (Cons c emitted)
  obtain st s' where u: "unify_simple_cnstr s c = (st, s')"
    by (cases "unify_simple_cnstr s c") blast
  show ?case
  proof (cases st)
    case Solved
    with u have "unify_callback (s, cs, False) c = (s', cs, False)"
      by (simp add: unify_callback_def)
    with u Solved Cons [of s' cs] show ?thesis by simp
  next
    case Failed
    with u have "unify_callback (s, cs, False) c = (s, cs, True)"
      by (simp add: unify_callback_def)
    with u Failed show ?thesis by (simp add: unify_callback_failed)
  next
    case Unsupported
    with u have "unify_callback (s, cs, False) c = (s, cs @ [c], False)"
      by (simp add: unify_callback_def)
    with u Unsupported Cons [of s "cs @ [c]"] show ?thesis by simp
  qed
qed

lemma keeps_mk_unifier_fn:
  "(\<forall>j. mk_unifier_fn K fuel cs ngen s p False max_steps \<noteq> Throw (Unifier_exception j)) \<and>
   (\<forall>u. mk_unifier_fn K fuel cs ngen s p False max_steps = Return u \<longrightarrow> \<not> m_use_exception u)"
proof -
  obtain child g where cg: "ngen_mk_child ngen = (child, g)"
    by (cases "ngen_mk_child ngen") blast
  show ?thesis
    using keeps_callbacks [OF quiet_process_constraint, of
        "\<lparr>m_ngen = g, m_subst = s, m_plugin = p, m_tc = mk_type_checker K child,
         m_use_exception = False, m_max_steps = max_steps, m_num_steps = 0,
         m_first = True, m_next_assumption_idx = 0, m_next_cidx = 0, m_cnstrs = [],
         m_mvar_occs = Map.empty, m_mlvl_occs = Map.empty, m_case_splits = [],
         m_conflict = None\<rparr>" K fuel cs]
    by (simp add: mk_unifier_fn_def cg keeps_def)
qed

lemma quiet_unify:
  "(\<forall>j. unify K fuel lhs rhs ngen p max_steps \<noteq> Throw (Unifier_exception j)) \<and>
   (\<forall>l. unify K fuel lhs rhs ngen p max_steps = Return l \<longrightarrow> quiet_solutions l)"
proof -
  have a: "(\<forall>j. bind_res (mk_unifier_fn K fuel cs ngen s p False max_steps)
                 (\<lambda>u. Return (Engine_solutions u)) \<noteq> Throw (Unifier_exception j)) \<and>
       (\<forall>l. bind_res (mk_unifier_fn K fuel cs ngen s p False max_steps)
                 (\<lambda>u. Return (Engine_solutions u)) = Return l \<longrightarrow> quiet_solutions l)"
    for cs s
    using keeps_mk_unifier_fn [of K fuel cs ngen s p max_steps]
    by (cases "mk_unifier_fn K fuel cs ngen s p False max_steps") auto
  obtain child new_ngen where cg: "ngen_mk_child ngen = (child, new_ngen)"
    by (cases "ngen_mk_child ngen") blast
  show ?thesis
  proof (cases "tc_is_def_eq K (mk_type_checker K child) lhs rhs Nojust")
    case (Inl e)
    with cg show ?thesis by (simp add: unify_def)
  next
    case (Inr r)
    obtain eq emitted tc' where r: "r = (eq, emitted, tc')"
      by (cases r) blast
    obtain s cs failed where f: "foldl unify_callback (empty_substitution, [], False) emitted = (s, cs, failed)"
      by (cases "foldl unify_callback (empty_substitution, [], False) emitted") blast
    from cg Inr r f a [of cs s] show ?thesis
      by (simp add: unify_def)
  qed
qed

lemma quiet_pull:
  "quiet_solutions l \<Longrightarrow>
     (\<forall>j. pull K fuel l \<noteq> Throw (Unifier_exception j)) \<and>
     (\<forall>s l'. pull K fuel l = Return (Some (s, l')) \<longrightarrow> quiet_solutions l')"
proof (cases l)
  case (Engine_solutions u)
  assume "quiet_solutions l"
  with Engine_solutions have nu: "\<not> m_use_exception u" by simp
  from keeps_next_solution [OF nu, of K fuel] nu Engine_solutions show ?thesis
    by (cases "next_solution K fuel u") (auto simp: pull_def keeps_def split: option.splits)
qed (simp_all add: pull_def)

lemma quiet_pull_nth:
  "quiet_solutions l \<Longrightarrow> pull_nth K fuel k l \<noteq> Throw (Unifier_exception j)"
proof (induction k arbitrary: l)
  case 0
  with quiet_pull [of l K fuel] show ?case by simp
next
  case (Suc k)
  show ?case
  proof (cases "pull K fuel l")
    case (Return r)
    with quiet_pull [OF Suc.prems, of K fuel] Suc.IH show ?thesis
      by (cases r) auto
  next
    case (Throw e)
    with quiet_pull [OF Suc.prems, of K fuel] show ?thesis by auto
  qed simp
qed

text \<open>C10. An engine that \<open>unify\<close> on two expressions builds has \<open>m_use_exception\<close> false,
  so that its \<open>failure\<close> is the end of the stream; \<open>unify\<close> itself does not raise the
  no-more-solutions exception, and no pull on the stream it returns does, however many
  pulls came before and whatever the fuel. When the definitional-equality check answers
  false, or a constraint it emitted gets the status Failed from the simple unifier,
  \<open>unify\<close> returns the empty stream, for every fuel: no engine is built.\<close>

theorem unify_never_raises_unifier_exception:
  "(\<forall>u. unify K fuel lhs rhs ngen p max_steps = Return (Engine_solutions u) \<longrightarrow>
        \<not> m_use_exception u \<and> failure u = Return (None, u)) \<and>
   (\<forall>j. unify K fuel lhs rhs ngen p max_steps \<noteq> Throw (Unifier_exception j)) \<and>
   (\<forall>l k fuel' j. unify K fuel lhs rhs ngen p max_steps = Return l \<longrightarrow>
        pull_nth K fuel' k l \<noteq> Throw (Unifier_exception j)) \<and>
   (\<forall>eq emitted tc'.
      tc_is_def_eq K (mk_type_checker K (fst (ngen_mk_child ngen))) lhs rhs Nojust =
        Inr (eq, emitted, tc') \<and> (\<not> eq \<or> gets_failed empty_substitution emitted) \<longrightarrow>
      unify K fuel lhs rhs ngen p max_steps = Return No_solutions)"
proof -
  have a: "\<not> m_use_exception u \<and> failure u = Return (None, u)"
    if "unify K fuel lhs rhs ngen p max_steps = Return (Engine_solutions u)" for u
    using quiet_unify [of K fuel lhs rhs ngen p max_steps] that by (simp add: failure_def)
  have b: "unify K fuel lhs rhs ngen p max_steps \<noteq> Throw (Unifier_exception j)" for j
    using quiet_unify [of K fuel lhs rhs ngen p max_steps] by simp
  have c: "pull_nth K fuel' k l \<noteq> Throw (Unifier_exception j)"
    if "unify K fuel lhs rhs ngen p max_steps = Return l" for l k fuel' j
    using quiet_unify [of K fuel lhs rhs ngen p max_steps] that quiet_pull_nth by blast
  have d: "unify K fuel lhs rhs ngen p max_steps = Return No_solutions"
    if r: "tc_is_def_eq K (mk_type_checker K (fst (ngen_mk_child ngen))) lhs rhs Nojust =
        Inr (eq, emitted, tc')" and e: "\<not> eq \<or> gets_failed empty_substitution emitted"
    for eq emitted tc'
  proof -
    obtain s cs failed where f: "foldl unify_callback (empty_substitution, [], False) emitted = (s, cs, failed)"
      by (cases "foldl unify_callback (empty_substitution, [], False) emitted") blast
    with unify_callback_gets_failed [of empty_substitution "[]" emitted]
    have "failed = gets_failed empty_substitution emitted" by simp
    with r e f show ?thesis
      by (auto simp: unify_def Let_def split: prod.splits)
  qed
  from a b c d show ?thesis by blast
qed

lemma emitting_engine:
  "\<exists>u. unify emitting_kernel (Suc (Suc 0)) (App ex_m ex_c) ex_n sample_ngen no_plugin 10 =
        Return (Engine_solutions u)"
  by (simp add: unify_def emitting_kernel_def sample_kernel_def sample_ngen_def ngen_mk_child_def
      ngen_next_def unify_callback_def unify_simple_def unify_simple_core_def is_simple_meta_def
      is_meta_def ex_m_def ex_c_def ex_n_def ex_type_def mk_unifier_fn_def Let_def
      process_constraint_step_def check_system_def dispatch_constraint_def in_conflict_def
      process_eq_constraint_def process_metavar_eq_def occurs_context_check_def
      assign_def tc_call_def mk_composite1_def lambda_abstract_locals_def abstract_locals_def
      subst_assign_def empty_substitution_def)

lemma emitting_failed:
  "tc_is_def_eq emitting_kernel (mk_type_checker emitting_kernel (fst (ngen_mk_child sample_ngen)))
      ex_c ex_f Nojust = Inr (True, [Eq_cnstr ex_c ex_f Nojust], ()) \<and>
   gets_failed empty_substitution [Eq_cnstr ex_c ex_f Nojust]"
  by (simp add: emitting_kernel_def sample_kernel_def unify_simple_def ex_c_def ex_f_def)

lemma sample_not_def_eq:
  "tc_is_def_eq sample_kernel (mk_type_checker sample_kernel (fst (ngen_mk_child sample_ngen)))
      ex_c ex_f Nojust = Inr (False, [], ())"
  by (simp add: sample_kernel_def ex_c_def ex_f_def)

text \<open>The entry point at \<open>?m c =?= ?n\<close> over the kernel that emits every equality (an
  engine is built), and at \<open>c =?= f\<close> over both sample kernels (the check fails, or the
  emitted constraint fails in the simple unifier).\<close>

theorem unify_never_raises_unifier_exception_witness:
  "(\<exists>u. unify emitting_kernel (Suc (Suc 0)) (App ex_m ex_c) ex_n sample_ngen no_plugin 10 =
          Return (Engine_solutions u) \<and>
        \<not> m_use_exception u \<and> failure u = Return (None, u) \<and>
        pull_nth emitting_kernel 2 1 (Engine_solutions u) \<noteq> Throw (Unifier_exception Nojust)) \<and>
   tc_is_def_eq sample_kernel (mk_type_checker sample_kernel (fst (ngen_mk_child sample_ngen)))
      ex_c ex_f Nojust = Inr (False, [], ()) \<and>
   unify sample_kernel 1 ex_c ex_f sample_ngen no_plugin 0 = Return No_solutions \<and>
   gets_failed empty_substitution [Eq_cnstr ex_c ex_f Nojust] \<and>
   unify emitting_kernel 1 ex_c ex_f sample_ngen no_plugin 0 = Return No_solutions"
proof -
  from emitting_engine obtain u where
    u: "unify emitting_kernel (Suc (Suc 0)) (App ex_m ex_c) ex_n sample_ngen no_plugin 10 =
          Return (Engine_solutions u)"
    by blast
  from unify_never_raises_unifier_exception [of emitting_kernel "Suc (Suc 0)" "App ex_m ex_c" ex_n
      sample_ngen no_plugin 10] u
  have a: "\<not> m_use_exception u \<and> failure u = Return (None, u) \<and>
        pull_nth emitting_kernel 2 1 (Engine_solutions u) \<noteq> Throw (Unifier_exception Nojust)"
    by blast
  from unify_never_raises_unifier_exception [of sample_kernel 1 ex_c ex_f sample_ngen no_plugin 0]
    sample_not_def_eq
  have b: "unify sample_kernel 1 ex_c ex_f sample_ngen no_plugin 0 = Return No_solutions"
    by blast
  from unify_never_raises_unifier_exception [of emitting_kernel 1 ex_c ex_f sample_ngen no_plugin 0]
    emitting_failed
  have c: "unify emitting_kernel 1 ex_c ex_f sample_ngen no_plugin 0 = Return No_solutions"
    by blast
  from u a b c sample_not_def_eq emitting_failed show ?thesis by blast
qed

end
